(* ===== verification/Prelude.thy ===== *)
theory Prelude
  imports Main "HOL-Library.Word" "HOL-Library.Monad_Syntax"
begin

text \<open>
  Shared material of the development: the option monad in which the C functions are
  written, the widths of the machine integers, and generic lemmas on lists and maps.

  A model of a C function has a result of type \<open>'a option\<close>. \<open>Some r\<close> is a run that
  returns \<open>r\<close>; \<open>None\<close> is a run that has no defined result: it reads through a null or
  dangling pointer, leaves the bounds of an array or of a local buffer, reads memory
  that was never written, overflows a signed integer, or never returns. Error codes the
  program itself returns are ordinary values of type \<open>int\<close>. A theorem with a conclusion
  \<open>f s = Some r\<close> therefore says that the run is memory safe, terminates and gives \<open>r\<close>.
\<close>

named_theorems c_ops \<open>definitions of the operations of a component, unfolded in its proofs\<close>
named_theorems c_inv \<open>preservation of the invariants\<close>

subsection \<open>The option monad\<close>

definition guard :: "bool \<Rightarrow> unit option" where
  "guard b = (if b then Some () else None)"

lemma guard_True [simp]: "guard True = Some ()"
  by (simp add: guard_def)

lemma guard_False [simp]: "guard False = None"
  by (simp add: guard_def)

lemma guard_eq_Some [simp]: "guard b = Some u \<longleftrightarrow> b"
  by (simp add: guard_def)

lemma guard_bind [simp]: "(guard b \<bind> f) = (if b then f () else None)"
  by (simp add: guard_def)

lemma bind_Some_iff: "(m \<bind> f) = Some y \<longleftrightarrow> (\<exists>x. m = Some x \<and> f x = Some y)"
  by (cases m) auto

lemma bind_option_cong [fundef_cong]:
  "m = m' \<Longrightarrow> (\<And>x. m' = Some x \<Longrightarrow> f x = g x) \<Longrightarrow> (m \<bind> f) = (m' \<bind> g)"
  by (cases m') auto

subsection \<open>Machine integers\<close>

text \<open>
  The limits of the 64-bit platform the code is written for. A \<open>long\<close> and a
  \<open>time_t\<close> is an \<open>int\<close> of the model that stays between \<open>LONG_MIN\<close> and \<open>LONG_MAX\<close>
  (an addition that leaves the range is undefined in C and gives \<open>None\<close>); a
  \<open>size_t\<close> that holds an index is a \<open>nat\<close> up to \<open>SIZE_MAX\<close>.
\<close>

definition LONG_MAX :: int where "LONG_MAX = 9223372036854775807"
definition LONG_MIN :: int where "LONG_MIN = -9223372036854775808"
definition SIZE_MAX :: nat where "SIZE_MAX = 18446744073709551615"

text \<open>The largest \<open>int\<close>: beyond it the arithmetic of \<open>int\<close> is undefined.\<close>

abbreviation INT_MAX :: nat where "INT_MAX \<equiv> 2147483647"

definition long_add :: "int \<Rightarrow> int \<Rightarrow> int option" where
  "long_add a b = (if LONG_MIN \<le> a + b \<and> a + b \<le> LONG_MAX then Some (a + b) else None)"

lemma long_add_Some:
  "long_add a b = Some c \<longleftrightarrow> c = a + b \<and> LONG_MIN \<le> c \<and> c \<le> LONG_MAX"
  by (auto simp: long_add_def)

subsection \<open>Lists and maps\<close>

lemma concat_replicate_snoc: "concat (replicate n xs) @ xs = concat (replicate (Suc n) xs)"
  by (induction n) simp_all

lemma distinct_map_inj: "distinct (map f xs) \<Longrightarrow> a \<in> set xs \<Longrightarrow> b \<in> set xs \<Longrightarrow> f a = f b \<Longrightarrow> a = b"
  by (auto simp: distinct_map inj_on_def)

lemma nth_Some_update: "i < length xs \<Longrightarrow> (xs[i := x]) ! j = (if i = j then x else xs ! j)"
  by (auto simp: nth_list_update)

lemma finite_dom_upd [simp]: "finite (dom m) \<Longrightarrow> finite (dom (m(a := v)))"
  by (rule finite_subset [of _ "insert a (dom m)"]) auto

lemma card_dom_upd_new: "finite (dom m) \<Longrightarrow> m a = None \<Longrightarrow> card (dom (m(a \<mapsto> v))) = Suc (card (dom m))"
  by (simp add: domIff)

lemma card_dom_del: "finite (dom m) \<Longrightarrow> m a = Some v \<Longrightarrow> Suc (card (dom (m(a := None)))) = card (dom m)"
proof -
  assume fin: "finite (dom m)" and a: "m a = Some v"
  have "dom (m(a := None)) = dom m - {a}" by auto
  moreover have "a \<in> dom m" using a by auto
  ultimately show ?thesis using card_Suc_Diff1 [OF fin] by simp
qed

lemma takeWhile_stop: "(\<forall>x\<in>set xs. P x) \<Longrightarrow> \<not> P y \<Longrightarrow> takeWhile P (xs @ y # ys) = xs"
  by (simp add: takeWhile_append2)

lemma dropWhile_stop: "(\<forall>x\<in>set xs. P x) \<Longrightarrow> \<not> P y \<Longrightarrow> dropWhile P (xs @ y # ys) = y # ys"
  by (simp add: dropWhile_append2)

end
