(* ===== verification/CLib.thy ===== *)
theory CLib
  imports Prelude
begin

text \<open>
  The routines of the C standard library the program calls on strings and numbers, for
  the C locale and 8-bit signed characters. A C string is the list of its characters
  before the terminating zero, so \<open>strcmp(a, b) == 0\<close> is equality of the two lists.
\<close>

abbreviation NUL :: char where "NUL \<equiv> CHR 0x00"
abbreviation LF :: char where "LF \<equiv> CHR 0x0A"
abbreviation TAB :: char where "TAB \<equiv> CHR 0x09"
abbreviation ESC :: char where "ESC \<equiv> CHR 0x1B"

subsection \<open>Character classes\<close>

definition c_isspace :: "char \<Rightarrow> bool" where
  "c_isspace c \<longleftrightarrow> c \<in> {CHR '' '', TAB, LF, CHR 0x0B, CHR 0x0C, CHR 0x0D}"

definition c_isdigit :: "char \<Rightarrow> bool" where
  "c_isdigit c \<longleftrightarrow> 48 \<le> (of_char c :: nat) \<and> (of_char c :: nat) \<le> 57"

definition c_isalnum :: "char \<Rightarrow> bool" where
  "c_isalnum c \<longleftrightarrow> (let n = (of_char c :: nat) in
     (48 \<le> n \<and> n \<le> 57) \<or> (65 \<le> n \<and> n \<le> 90) \<or> (97 \<le> n \<and> n \<le> 122))"

definition c_tolower :: "char \<Rightarrow> char" where
  "c_tolower c = (let n = (of_char c :: nat) in
     if 65 \<le> n \<and> n \<le> 90 then char_of (n + 32) else c)"

text \<open>\<open>strcasecmp(a, b) == 0\<close>\<close>

definition strcaseeq :: "string \<Rightarrow> string \<Rightarrow> bool" where
  "strcaseeq a b \<longleftrightarrow> map c_tolower a = map c_tolower b"

lemma strcaseeq_refl [simp]: "strcaseeq a a"
  by (simp add: strcaseeq_def)

lemma strcaseeq_length: "strcaseeq a b \<Longrightarrow> length a = length b"
  unfolding strcaseeq_def by (rule map_eq_imp_length_eq)

text \<open>A \<open>char\<close> read as an \<open>int\<close>: characters are signed on the target.\<close>

definition signed_char :: "char \<Rightarrow> int" where
  "signed_char c = (let n = (of_char c :: int) in if n < 128 then n else n - 256)"

subsection \<open>Decimal numbers\<close>

definition digit_char :: "nat \<Rightarrow> char" where
  "digit_char d = char_of (48 + d)"

definition digit_value :: "char \<Rightarrow> int" where
  "digit_value c = int (of_char c) - 48"

text \<open>The decimal digits of a number, as \<open>%d\<close>, \<open>%ld\<close> and \<open>%zu\<close> print it.\<close>

fun dec_nat :: "nat \<Rightarrow> string" where
  "dec_nat n = (if n < 10 then [digit_char n] else dec_nat (n div 10) @ [digit_char (n mod 10)])"

declare dec_nat.simps [simp del]

definition dec_int :: "int \<Rightarrow> string" where
  "dec_int i = (if i < 0 then ''-'' @ dec_nat (nat (- i)) else dec_nat (nat i))"

text \<open>\<open>%zu\<close> applied to a \<open>time_t\<close>: the value is read as an unsigned 64-bit number.\<close>

definition show_zu :: "int \<Rightarrow> string" where
  "show_zu i = dec_nat (nat (i mod 2 ^ 64))"

definition digits_value :: "string \<Rightarrow> int" where
  "digits_value ds = foldl (\<lambda>v c. v * 10 + digit_value c) 0 ds"

text \<open>
  \<open>atol\<close> as the GNU library has it, \<open>strtol\<close> in base ten: white space, a sign, digits;
  a value outside the range of \<open>long\<close> becomes the nearest end of the range.
\<close>

definition atol :: "string \<Rightarrow> int" where
  "atol s =
     (let s1 = dropWhile c_isspace s;
          neg = (s1 \<noteq> [] \<and> hd s1 = CHR ''-'');
          s2 = (if s1 \<noteq> [] \<and> (hd s1 = CHR ''-'' \<or> hd s1 = CHR ''+'') then tl s1 else s1);
          v = digits_value (takeWhile c_isdigit s2)
      in max LONG_MIN (min LONG_MAX (if neg then - v else v)))"

text \<open>\<open>atoi\<close> is \<open>(int) strtol(...)\<close>: the low 32 bits, read as a signed number.\<close>

definition atoi :: "string \<Rightarrow> int" where
  "atoi s = sint (word_of_int (atol s) :: 32 word)"

lemma of_char_digit_char: "d < 10 \<Longrightarrow> (of_char (digit_char d) :: nat) = 48 + d"
  by (simp add: digit_char_def)

lemma c_isdigit_digit_char [simp]: "d < 10 \<Longrightarrow> c_isdigit (digit_char d)"
  by (simp add: c_isdigit_def of_char_digit_char)

lemma digit_value_digit_char [simp]: "d < 10 \<Longrightarrow> digit_value (digit_char d) = int d"
  by (simp add: digit_value_def of_char_digit_char)

lemma dec_nat_digits: "c \<in> set (dec_nat n) \<Longrightarrow> c_isdigit c"
proof (induction n rule: dec_nat.induct)
  case (1 n)
  then show ?case
    by (subst (asm) dec_nat.simps) (auto split: if_splits)
qed

lemma dec_nat_nonempty [simp]: "dec_nat n \<noteq> []"
  by (subst dec_nat.simps) simp

lemma digits_value_snoc: "digits_value (ds @ [c]) = digits_value ds * 10 + digit_value c"
  by (simp add: digits_value_def)

lemma digits_value_dec_nat: "digits_value (dec_nat n) = int n"
proof (induction n rule: dec_nat.induct)
  case (1 n)
  show ?case
  proof (cases "n < 10")
    case True
    then show ?thesis
      by (subst dec_nat.simps) (simp add: digits_value_def)
  next
    case False
    with 1 have "digits_value (dec_nat n) = int (n div 10) * 10 + int (n mod 10)"
      by (subst dec_nat.simps) (simp add: digits_value_snoc)
    also have "\<dots> = int n"
      by (metis div_mult_mod_eq of_nat_add of_nat_mult of_nat_numeral)
    finally show ?thesis .
  qed
qed

lemma dec_nat_not_space: "c \<in> set (dec_nat n) \<Longrightarrow> \<not> c_isspace c"
  by (drule dec_nat_digits) (auto simp: c_isdigit_def c_isspace_def)

lemma digit_not_space: "c_isdigit c \<Longrightarrow> \<not> c_isspace c"
  by (auto simp: c_isdigit_def c_isspace_def)

lemma digit_not_sign: "c_isdigit c \<Longrightarrow> c \<noteq> CHR ''-'' \<and> c \<noteq> CHR ''+''"
  by (auto simp: c_isdigit_def)

text \<open>\<open>atol\<close> reads back what \<open>%zu\<close> printed, up to the end of the range.\<close>

lemma atol_dec_nat: "atol (dec_nat n) = min LONG_MAX (int n)"
proof -
  obtain c cs where d: "dec_nat n = c # cs"
    by (cases "dec_nat n") auto
  have dig: "\<forall>x\<in>set (c # cs). c_isdigit x"
    using dec_nat_digits [of _ n] d by simp
  then have c: "c_isdigit c" by simp
  have dw: "dropWhile c_isspace (c # cs) = c # cs"
    using digit_not_space [OF c] by simp
  have tw: "takeWhile c_isdigit (c # cs) = c # cs"
    using dig by simp
  have "digits_value (c # cs) = int n"
    using digits_value_dec_nat [of n] d by simp
  then show ?thesis
    using dw tw digit_not_sign [OF c] d by (simp add: atol_def Let_def LONG_MAX_def LONG_MIN_def)
qed

lemma atol_range: "LONG_MIN \<le> atol s \<and> atol s \<le> LONG_MAX"
  by (simp add: atol_def Let_def LONG_MAX_def LONG_MIN_def)

lemma atol_show_zu: "0 \<le> i \<Longrightarrow> i \<le> LONG_MAX \<Longrightarrow> atol (show_zu i) = i"
  by (simp add: show_zu_def atol_dec_nat LONG_MAX_def)

subsection \<open>Lengths of printed numbers\<close>

lemma length_dec_nat_le: "n < 10 ^ Suc k \<Longrightarrow> length (dec_nat n) \<le> Suc k"
proof (induction k arbitrary: n)
  case 0
  then show ?case by (subst dec_nat.simps) simp
next
  case (Suc k)
  then have "n div 10 < 10 ^ Suc k" by (simp add: less_mult_imp_div_less mult.commute)
  from Suc.IH [OF this] show ?case
    by (subst dec_nat.simps) auto
qed

lemma length_dec_nat_ge: "10 ^ k \<le> n \<Longrightarrow> Suc k \<le> length (dec_nat n)"
proof (induction k arbitrary: n)
  case 0
  then show ?case by (subst dec_nat.simps) simp
next
  case (Suc k)
  have "10 ^ k \<le> n div 10"
    using Suc.prems div_le_mono [of "10 ^ Suc k" n 10] by simp
  moreover have "\<not> n < 10"
    using Suc.prems le_trans [of 10 "10 ^ Suc k" n] by (simp add: self_le_power)
  ultimately show ?case
    using Suc.IH [of "n div 10"] by (subst dec_nat.simps) simp
qed

subsection \<open>Tokens\<close>

text \<open>
  One call of \<open>strtok_r\<close>: it skips delimiters, gives the longest run without one (none
  at the end of the string) and remembers the rest, without the delimiter that ended
  the token. \<open>strtok\<close> is the same with one hidden rest for the whole process.
\<close>

definition strtok_r :: "(char \<Rightarrow> bool) \<Rightarrow> string \<Rightarrow> (string \<times> string) option" where
  "strtok_r delim s =
     (let s' = dropWhile delim s
      in if s' = [] then None
         else Some (takeWhile (\<lambda>c. \<not> delim c) s', drop 1 (dropWhile (\<lambda>c. \<not> delim c) s')))"

lemma strtok_r_Nil [simp]: "strtok_r d [] = None"
  by (simp add: strtok_r_def)

lemma strtok_r_skip: "d c \<Longrightarrow> strtok_r d (c # s) = strtok_r d s"
  by (simp add: strtok_r_def)

lemma strtok_r_token:
  assumes "t \<noteq> []" and "\<forall>c\<in>set t. \<not> d c" and "d x"
  shows "strtok_r d (t @ x # r) = Some (t, r)"
  using assms by (cases t) (auto simp: strtok_r_def Let_def takeWhile_stop dropWhile_stop)

lemma strtok_r_last:
  assumes "t \<noteq> []" and "\<forall>c\<in>set t. \<not> d c"
  shows "strtok_r d t = Some (t, [])"
proof -
  have "dropWhile (\<lambda>c. \<not> d c) t = []"
    using assms(2) by (simp add: dropWhile_eq_Nil_conv)
  then have "length (dropWhile (\<lambda>c. \<not> d c) t) \<le> Suc 0"
    by (simp only: list.size)
  moreover have "dropWhile d t = t"
    using assms by (cases t) auto
  ultimately show ?thesis
    using assms by (simp add: strtok_r_def)
qed

lemma strtok_r_SomeD:
  assumes "strtok_r d s = Some (t, r)"
  shows "t \<noteq> [] \<and> (\<forall>c\<in>set t. \<not> d c) \<and> length t + length r \<le> length s"
proof -
  let ?s = "dropWhile d s"
  have s: "?s \<noteq> []" and t: "t = takeWhile (\<lambda>c. \<not> d c) ?s" and r: "r = drop 1 (dropWhile (\<lambda>c. \<not> d c) ?s)"
    using assms by (auto simp: strtok_r_def Let_def split: if_splits)
  have "\<not> d (hd ?s)" using s by (rule hd_dropWhile)
  then have "t \<noteq> []" using s t by (cases ?s) auto
  moreover have "\<forall>c\<in>set t. \<not> d c" using t by (auto dest: set_takeWhileD)
  moreover have "length t + length r \<le> length ?s"
    using t r by (metis diff_le_self length_append length_drop nat_add_left_cancel_le takeWhile_dropWhile_id)
  ultimately show ?thesis using length_dropWhile_le [of d s] by linarith
qed

text \<open>The text of a formatted print into a buffer of \<open>cap\<close> bytes, with its terminating zero.\<close>

definition sprintf_to :: "nat \<Rightarrow> string \<Rightarrow> string option" where
  "sprintf_to cap s = (if length s + 1 \<le> cap then Some s else None)"

lemma sprintf_to_Some [simp]: "sprintf_to cap s = Some t \<longleftrightarrow> t = s \<and> length s < cap"
  by (auto simp: sprintf_to_def)

end
