(* ===== verification/State.thy ===== *)
theory State
  imports CLib
begin

text \<open>
  The data of the program: the structs of \<open>include/*.h\<close> as records, its enums as
  datatypes, its error codes, and one record for the process, with every global variable
  of the C files, the allocated objects and what the operating system answers.
\<close>

subsection \<open>Constants of include/common.h and include/config.h\<close>

abbreviation (input) MAX_CMD_LEN :: nat where "MAX_CMD_LEN \<equiv> 512"
abbreviation (input) MAX_CMD_PARAMS :: nat where "MAX_CMD_PARAMS \<equiv> 16"
abbreviation (input) MAX_RESP_LEN :: nat where "MAX_RESP_LEN \<equiv> 8192"

definition RED :: string where "RED = ESC # ''[31m''"
definition YELLOW :: string where "YELLOW = ESC # ''[33m''"
definition GREEN :: string where "GREEN = ESC # ''[32m''"
definition BOLD :: string where "BOLD = ESC # ''[1m''"
definition RESET :: string where "RESET = ESC # ''[0m''"

text \<open>Return codes (\<open>err_t\<close> is \<open>int\<close>).\<close>

type_synonym err_t = int

abbreviation (input) DB_ERR_GENERIC_FAIL :: err_t where "DB_ERR_GENERIC_FAIL \<equiv> -1"
abbreviation (input) DB_ERR_OK :: err_t where "DB_ERR_OK \<equiv> 0"
abbreviation (input) DB_ERR_SUCCESS :: err_t where "DB_ERR_SUCCESS \<equiv> 1"
abbreviation (input) DB_ERR_INVALID_ARGS :: err_t where "DB_ERR_INVALID_ARGS \<equiv> 2"
abbreviation (input) DB_ERR_NOMEM :: err_t where "DB_ERR_NOMEM \<equiv> 3"
abbreviation (input) DB_ERR_KEY_NOTEXIST :: err_t where "DB_ERR_KEY_NOTEXIST \<equiv> 4"
abbreviation (input) DB_ERR_KEY_EXISTS :: err_t where "DB_ERR_KEY_EXISTS \<equiv> 5"
abbreviation (input) DB_ERR_CMD_NOTEXIST :: err_t where "DB_ERR_CMD_NOTEXIST \<equiv> 6"
abbreviation (input) DB_ERR_KEY_EXPIRED :: err_t where "DB_ERR_KEY_EXPIRED \<equiv> 7"
abbreviation (input) DB_ERR_KEY_NOT_EXPIRED :: err_t where "DB_ERR_KEY_NOT_EXPIRED \<equiv> 8"
abbreviation (input) DB_ERR_FILE_INACCESSIBLE :: err_t where "DB_ERR_FILE_INACCESSIBLE \<equiv> 9"
abbreviation (input) DB_ERR_CLIENT_OK :: err_t where "DB_ERR_CLIENT_OK \<equiv> 10"
abbreviation (input) DB_ERR_CLIENT_CLOSED :: err_t where "DB_ERR_CLIENT_CLOSED \<equiv> 11"
abbreviation (input) DB_ERR_CLIENT_FATAL :: err_t where "DB_ERR_CLIENT_FATAL \<equiv> 12"
abbreviation (input) DB_ERR_HELP :: err_t where "DB_ERR_HELP \<equiv> 40"
abbreviation (input) DB_ERR_EXIT :: err_t where "DB_ERR_EXIT \<equiv> 41"
abbreviation (input) DB_ERR_SHUTDOWN :: err_t where "DB_ERR_SHUTDOWN \<equiv> 42"
abbreviation (input) ERR_FULL :: err_t where "ERR_FULL \<equiv> 100"

definition USER_PROMPT :: string where "USER_PROMPT = ''sahDB> ''"
definition USER_SIG_HDR :: string where "USER_SIG_HDR = ''SIG::''"
definition DEFAULT_SAVE_FILE :: string where "DEFAULT_SAVE_FILE = ''data.safe''"

subsection \<open>Heap objects: struct Entry, struct replicaNode\<close>

text \<open>
  Entries are shared: a bucket reaches one through \<open>next\<close> pointers and the expiry heap
  through its array. They therefore live in a store, a partial map from addresses;
  \<open>free\<close> removes an address, so a read through a dangling pointer finds \<open>None\<close>.
\<close>

type_synonym addr = nat

record Entry =
  e_key :: string
  e_value :: string
  e_next :: "addr option"
  e_prev :: "addr option"
  e_expiry :: int
  e_heap_index :: nat

record replicaNode =
  r_ip :: "string option"
  r_hostname :: "string option"
  r_port :: int
  r_uuid :: "string option"
  r_next :: "addr option"

text \<open>
  \<open>alloc_ok n\<close> says whether the \<open>n\<close>-th request for memory of the process succeeds;
  \<open>nxt\<close> is an address above every one handed out.
\<close>

record memory =
  ents :: "addr \<Rightarrow> Entry option"
  repls :: "addr \<Rightarrow> replicaNode option"
  nxt :: addr
  alloc_ok :: "nat \<Rightarrow> bool"
  allocs :: nat

definition alloc :: "memory \<Rightarrow> bool \<times> memory" where
  "alloc m = (alloc_ok m (allocs m), m\<lparr>allocs := Suc (allocs m)\<rparr>)"

definition put_entry :: "memory \<Rightarrow> addr \<Rightarrow> Entry \<Rightarrow> memory" where
  "put_entry m a e = m\<lparr>ents := (ents m)(a \<mapsto> e)\<rparr>"

definition free_entry :: "memory \<Rightarrow> addr \<Rightarrow> memory" where
  "free_entry m a = m\<lparr>ents := (ents m)(a := None)\<rparr>"

definition new_entry :: "memory \<Rightarrow> Entry \<Rightarrow> addr \<times> memory" where
  "new_entry m e = (nxt m, m\<lparr>ents := (ents m)(nxt m \<mapsto> e), nxt := Suc (nxt m)\<rparr>)"

subsection \<open>struct HashTable, struct ttl\_heap\<close>

text \<open>
  The array of the expiry heap has \<open>capacity\<close> cells; a cell that was never written is
  \<open>None\<close>, and reading it is undefined.
\<close>

record HashTable =
  buckets :: "addr option list"
  ht_size :: nat
  ht_count :: "64 word"

record ttl_heap =
  heap_arr :: "addr option list"
  h_size :: nat
  h_capacity :: nat

subsection \<open>Connections and configuration (include/config.h)\<close>

datatype log_level = LOG_INFO | LOG_DEBUG | LOG_EXCEPT | LOG_TRACE
datatype conn_state_t = STATE_INACTIVE | STATE_HANDSHAKE | STATE_ACTIVE
datatype conn_type_t = CONN_UNKN | CONN_USER | CONN_REPL

record conn_t =
  c_fd :: int
  c_type :: conn_type_t
  c_state :: conn_state_t

text \<open>A cell of the array that was never written is \<open>None\<close>.\<close>

record connection_table =
  conns :: "conn_t option list"
  ct_len :: int
  ct_cap :: int

text \<open>
  The path of the save file is a pointer to a constant, to an argument of the process or,
  when a configuration file sets it, into a local buffer of the function that reads that
  file; then it dangles as soon as the function has returned.
\<close>

datatype path_ptr = Null | Dangling | Path string

definition path_of :: "path_ptr \<Rightarrow> string option" where
  "path_of p = (case p of Path t \<Rightarrow> Some t | _ \<Rightarrow> None)"

lemma path_of_simps [simp]: "path_of (Path t) = Some t" "path_of Null = None" "path_of Dangling = None"
  by (simp_all add: path_of_def)

record master_info =
  m_name :: string
  m_is_conn :: bool
  m_sock :: int
  m_port :: int

record server_config =
  server_log_level :: log_level
  server_log_file :: "string option"
  config_file :: "string option"
  cfg_ip :: "string option"
  server_port :: int
  savefile :: path_ptr
  cfg_rebuild :: bool
  is_master_node :: bool
  cfg_uuid :: "string option"
  num_replicas :: int
  replicas :: "addr option"
  master :: "master_info option"
  connections :: "connection_table option"
  cfg_daemonize :: bool

record AppConfig =
  input_fd :: int
  output_fd :: int

subsection \<open>The operating system\<close>

text \<open>
  Answers of the system are functions of the number of the call: the \<open>n\<close>-th
  \<open>time(NULL)\<close>, the result of the \<open>n\<close>-th \<open>send\<close>, of the \<open>n\<close>-th \<open>read\<close> or \<open>recv\<close>, of the
  \<open>n\<close>-th \<open>select\<close> (its result and the descriptors that are ready), and, under one
  count, of \<open>socket\<close>, \<open>bind\<close>, \<open>listen\<close>, \<open>accept\<close>, \<open>connect\<close>, \<open>gethostbyname\<close> (negative: not
  found), \<open>inet_pton\<close>, \<open>fork\<close> and \<open>open\<close>. Any behaviour of the environment is one such function. What the process does to the
  outside is the list \<open>io\<close>, oldest first.
\<close>

datatype recv_result = Received string | EndOfFile | Interrupted | ReadError

datatype io_event = Wrote int string | Sent int string | Closed int | Dup2 int int | SetSid | StdErr string

record os =
  clock :: "nat \<Rightarrow> int"
  ticks :: nat
  send_res :: "nat \<Rightarrow> int"
  n_send :: nat
  recv_res :: "nat \<Rightarrow> recv_result"
  n_recv :: nat
  call_res :: "nat \<Rightarrow> int"
  n_call :: nat
  select_res :: "nat \<Rightarrow> int \<times> int list"
  n_select :: nat
  files :: "string \<Rightarrow> string option"
  writable :: "string \<Rightarrow> bool"
  io :: "io_event list"

subsection \<open>The process\<close>

text \<open>
  The globals \<open>ht\<close> (hash.c), \<open>ttl\<close> (ttl.c), \<open>SILENT\<close> and \<open>nl\<close> (common.c),
  \<open>process_save\<close> (dbsave.c), \<open>app_config\<close> and \<open>host_config\<close> (config.c). \<open>slack\<close> is the
  number of bytes of padding the compiled code happens to have after a local buffer: 0
  is the C standard, where any byte written past the end is undefined. \<open>uninit\<close> is the C
  string that a local buffer nobody wrote to holds; \<open>None\<close> when it has no terminating
  zero, so that reading it as a string is undefined.
\<close>

record db =
  mem :: memory
  ht :: HashTable
  ttl :: ttl_heap
  SILENT :: bool
  nl :: bool
  process_save :: bool
  app_config :: AppConfig
  host_config :: server_config
  slack :: nat
  uninit :: "string option"
  sys :: os

text \<open>The state \<open>cmd_ctx\<close> a request carries (include/command.h); \<open>None\<close> is the null pointer.\<close>

record cmd_ctx =
  ctx_conn :: conn_t
  ctx_resp :: string
  ctx_status :: err_t

text \<open>\<open>time(NULL)\<close>\<close>

definition time_now :: "db \<Rightarrow> int" where
  "time_now s = clock (sys s) (ticks (sys s))"

definition tick :: "db \<Rightarrow> db" where
  "tick s = s\<lparr>sys := (sys s)\<lparr>ticks := Suc (ticks (sys s))\<rparr>\<rparr>"

definition time_NULL :: "db \<Rightarrow> int \<times> db" where
  "time_NULL s = (time_now s, tick s)"

text \<open>One request for memory that is not an object of the store.\<close>

definition malloc_ok :: "db \<Rightarrow> bool \<times> db" where
  "malloc_ok s = (let (b, m) = alloc (mem s) in (b, s\<lparr>mem := m\<rparr>))"

definition emit :: "io_event \<Rightarrow> db \<Rightarrow> db" where
  "emit ev s = s\<lparr>sys := (sys s)\<lparr>io := io (sys s) @ [ev]\<rparr>\<rparr>"

definition call_next :: "db \<Rightarrow> int \<times> db" where
  "call_next s = (call_res (sys s) (n_call (sys s)), s\<lparr>sys := (sys s)\<lparr>n_call := Suc (n_call (sys s))\<rparr>\<rparr>)"

definition select_next :: "db \<Rightarrow> (int \<times> int list) \<times> db" where
  "select_next s = (select_res (sys s) (n_select (sys s)), s\<lparr>sys := (sys s)\<lparr>n_select := Suc (n_select (sys s))\<rparr>\<rparr>)"

text \<open>The process as the loader leaves it: every global zero.\<close>

definition zero_config :: server_config where
  "zero_config = \<lparr>server_log_level = LOG_INFO, server_log_file = None, config_file = None,
     cfg_ip = None, server_port = 0, savefile = Null, cfg_rebuild = False,
     is_master_node = False, cfg_uuid = None, num_replicas = 0, replicas = None,
     master = None, connections = None, cfg_daemonize = False\<rparr>"

subsection \<open>What the small updates leave alone\<close>

lemma alloc_simps [simp]:
  "ents (snd (alloc m)) = ents m" "repls (snd (alloc m)) = repls m"
  "nxt (snd (alloc m)) = nxt m" "alloc_ok (snd (alloc m)) = alloc_ok m"
  "fst (alloc m) = alloc_ok m (allocs m)"
  by (simp_all add: alloc_def)

lemma put_entry_simps [simp]:
  "ents (put_entry m a e) = (ents m)(a \<mapsto> e)" "repls (put_entry m a e) = repls m"
  "nxt (put_entry m a e) = nxt m" "alloc_ok (put_entry m a e) = alloc_ok m"
  "allocs (put_entry m a e) = allocs m"
  by (simp_all add: put_entry_def)

lemma free_entry_simps [simp]:
  "ents (free_entry m a) = (ents m)(a := None)" "repls (free_entry m a) = repls m"
  "nxt (free_entry m a) = nxt m" "alloc_ok (free_entry m a) = alloc_ok m"
  "allocs (free_entry m a) = allocs m"
  by (simp_all add: free_entry_def)

lemma tick_simps [simp]:
  "mem (tick s) = mem s" "ht (tick s) = ht s" "ttl (tick s) = ttl s"
  "SILENT (tick s) = SILENT s" "slack (tick s) = slack s" "uninit (tick s) = uninit s" "nl (tick s) = nl s"
  "host_config (tick s) = host_config s" "app_config (tick s) = app_config s"
  "process_save (tick s) = process_save s"
  by (simp_all add: tick_def)

lemma emit_simps [simp]:
  "mem (emit ev s) = mem s" "ht (emit ev s) = ht s" "ttl (emit ev s) = ttl s"
  "SILENT (emit ev s) = SILENT s" "slack (emit ev s) = slack s" "uninit (emit ev s) = uninit s" "nl (emit ev s) = nl s"
  "host_config (emit ev s) = host_config s" "app_config (emit ev s) = app_config s"
  "process_save (emit ev s) = process_save s"
  "clock (sys (emit ev s)) = clock (sys s)" "ticks (sys (emit ev s)) = ticks (sys s)"
  by (simp_all add: emit_def)

end
