(* ===== verification/Common.thy ===== *)
theory Common
  imports State
begin

text \<open>
  \<open>src/common.c\<close>: terminal and socket input and output, the tokenizer; and
  \<open>fill_cmd_ctx\<close> of \<open>src/command.c\<close>, through which every command answers.
\<close>

section \<open>The code\<close>

definition recv_next :: "db \<Rightarrow> recv_result \<times> db" where
  "recv_next s = (recv_res (sys s) (n_recv (sys s)), s\<lparr>sys := (sys s)\<lparr>n_recv := Suc (n_recv (sys s))\<rparr>\<rparr>)"

definition send_next :: "int \<Rightarrow> string \<Rightarrow> db \<Rightarrow> int \<times> db" where
  "send_next fd text s =
     (send_res (sys s) (n_send (sys s)),
      emit (Sent fd text) (s\<lparr>sys := (sys s)\<lparr>n_send := Suc (n_send (sys s))\<rparr>\<rparr>))"

text \<open>For sharing information with the user: nothing while \<open>SILENT\<close> or for an empty text.\<close>

definition send_info_to_user :: "string \<Rightarrow> db \<Rightarrow> db" where
  "send_info_to_user data s =
     (if SILENT s then s
      else if data = [] then s
      else let s1 = emit (Wrote (output_fd (app_config s)) data) s
           in if nl s1 then emit (Wrote (output_fd (app_config s)) [LF]) s1 else s1)"

text \<open>\<open>send_info_to_user(resp)\<close> for a buffer \<open>resp\<close> that may not have been written.\<close>

definition send_resp :: "string option \<Rightarrow> db \<Rightarrow> db option" where
  "send_resp resp s =
     (if SILENT s then Some s
      else do { data \<leftarrow> (case resp of Some d \<Rightarrow> Some d | None \<Rightarrow> uninit s); Some (send_info_to_user data s) })"

text \<open>
  \<open>get_user_input\<close> prints the prompt without a line end, clears the buffer of
  \<open>MAX_CMD_LEN\<close> bytes and reads at most one byte less. The result is the return code and
  the C string left in the buffer.
\<close>

definition get_user_input :: "db \<Rightarrow> int \<times> string \<times> db" where
  "get_user_input s =
     (let s1 = send_info_to_user USER_PROMPT (s\<lparr>nl := False\<rparr>);
          (r, s2) = recv_next (s1\<lparr>nl := True\<rparr>);
          bs = (case r of Received t \<Rightarrow> take (MAX_CMD_LEN - 1) t | _ \<Rightarrow> [])
      in if bs = [] then (1, [], s2)
         else (0, takeWhile (\<lambda>c. c \<noteq> NUL) (if last bs = LF then butlast bs else bs), s2))"

definition is_blank :: "char \<Rightarrow> bool" where
  "is_blank c \<longleftrightarrow> c = CHR '' '' \<or> c = TAB \<or> c = LF"

primrec tokens_upto :: "nat \<Rightarrow> string \<Rightarrow> string list" where
  "tokens_upto 0 s = []"
| "tokens_upto (Suc n) s =
     (case strtok_r is_blank s of None \<Rightarrow> [] | Some (token, rest) \<Rightarrow> token # tokens_upto n rest)"

text \<open>The initialised part of \<open>tokens\<close>; the return value is its length.\<close>

definition tokenize :: "string \<Rightarrow> string list" where
  "tokenize inp = tokens_upto MAX_CMD_PARAMS inp"

text \<open>\<open>fopen\<close> is not checked: a missing file is a null stream.\<close>

definition get_file_size :: "string \<Rightarrow> db \<Rightarrow> int option" where
  "get_file_size path s = map_option (\<lambda>t. int (length t)) (files (sys s) path)"

definition socket_send_data :: "int \<Rightarrow> string \<Rightarrow> db \<Rightarrow> err_t \<times> db" where
  "socket_send_data sock text s =
     (let buffer = take (MAX_RESP_LEN - 1) text;
          (bytes_sent, s1) = send_next sock buffer s
      in if bytes_sent < 1
         then (DB_ERR_GENERIC_FAIL, send_info_to_user ''Not able to share data to machine over network'' s1)
         else (DB_ERR_OK, s1))"

text \<open>The C string in the buffer once the first line end became its terminating zero.\<close>

definition first_line :: "string \<Rightarrow> string" where
  "first_line bs = takeWhile (\<lambda>c. c \<noteq> LF \<and> c \<noteq> NUL) bs"

text \<open>
  An interrupted read is repeated, without end if every read is interrupted. \<open>buf\<close> is
  what the buffer held before.
\<close>

partial_function (option) socket_read_data ::
  "int \<Rightarrow> string \<Rightarrow> nat \<Rightarrow> db \<Rightarrow> (err_t \<times> string \<times> db) option" where
  "socket_read_data sock buf bufsize s =
     (let (r, s1) = recv_next s
      in case r of
           Received t \<Rightarrow>
             (if take bufsize t = [] then Some (DB_ERR_CLIENT_CLOSED, buf, s1)
              else Some (DB_ERR_OK, first_line (take bufsize t), s1))
         | EndOfFile \<Rightarrow> Some (DB_ERR_CLIENT_CLOSED, buf, s1)
         | Interrupted \<Rightarrow> socket_read_data sock buf bufsize s1
         | ReadError \<Rightarrow> Some (DB_ERR_CLIENT_FATAL, buf, s1))"

definition user_socket_send_data :: "int \<Rightarrow> string \<Rightarrow> int \<Rightarrow> db \<Rightarrow> err_t \<times> db" where
  "user_socket_send_data sock buf ret_code s =
     (let (r1, s1) = socket_send_data sock buf s
      in socket_send_data sock (USER_SIG_HDR @ dec_int ret_code) s1)"

text \<open>
  \<open>fill_cmd_ctx\<close> does nothing for an empty response, prints the response when there is no
  context (a local session), and otherwise stores response and code in the context.
\<close>

definition fill_cmd_ctx :: "cmd_ctx option \<Rightarrow> err_t \<Rightarrow> string \<Rightarrow> db \<Rightarrow> cmd_ctx option \<times> db" where
  "fill_cmd_ctx ctx res resp s =
     (if resp = [] then (ctx, s)
      else case ctx of
             None \<Rightarrow> (None, send_info_to_user resp s)
           | Some c \<Rightarrow> (Some (c\<lparr>ctx_resp := resp, ctx_status := res\<rparr>), s))"

text \<open>The common end of the handlers: \<open>ret: fill_cmd_ctx(ctx, res, resp); return res;\<close>\<close>

definition answer :: "cmd_ctx option \<Rightarrow> err_t \<Rightarrow> string \<Rightarrow> db \<Rightarrow> err_t \<times> cmd_ctx option \<times> db" where
  "answer ctx res resp s = (let (ctx', s') = fill_cmd_ctx ctx res resp s in (res, ctx', s'))"

section \<open>Lemmas\<close>

lemma answer_empty [simp]: "answer ctx res [] s = (res, ctx, s)"
  by (simp add: answer_def fill_cmd_ctx_def)

lemma send_info_simps [simp]:
  "mem (send_info_to_user d s) = mem s" "ht (send_info_to_user d s) = ht s"
  "ttl (send_info_to_user d s) = ttl s" "SILENT (send_info_to_user d s) = SILENT s"
  "nl (send_info_to_user d s) = nl s" "slack (send_info_to_user d s) = slack s" "uninit (send_info_to_user d s) = uninit s"
  "host_config (send_info_to_user d s) = host_config s"
  "app_config (send_info_to_user d s) = app_config s"
  "process_save (send_info_to_user d s) = process_save s"
  "clock (sys (send_info_to_user d s)) = clock (sys s)"
  "ticks (sys (send_info_to_user d s)) = ticks (sys s)"
  by (simp_all add: send_info_to_user_def Let_def)

lemma send_info_sys_simps [simp]:
  "files (sys (send_info_to_user d s)) = files (sys s)" "recv_res (sys (send_info_to_user d s)) = recv_res (sys s)"
  by (simp_all add: send_info_to_user_def emit_def Let_def)

lemma send_info_silent: "SILENT s \<Longrightarrow> send_info_to_user d s = s"
  by (simp add: send_info_to_user_def)

lemma fill_empty [simp]: "fill_cmd_ctx ctx r [] s = (ctx, s)"
  by (simp add: fill_cmd_ctx_def)

lemma fill_Some:
  "d \<noteq> [] \<Longrightarrow> fill_cmd_ctx (Some c) r d s = (Some (c\<lparr>ctx_resp := d, ctx_status := r\<rparr>), s)"
  by (simp add: fill_cmd_ctx_def)

lemma fill_state_simps [simp]:
  "mem (snd (fill_cmd_ctx c r d s)) = mem s" "ht (snd (fill_cmd_ctx c r d s)) = ht s"
  "ttl (snd (fill_cmd_ctx c r d s)) = ttl s" "SILENT (snd (fill_cmd_ctx c r d s)) = SILENT s"
  "slack (snd (fill_cmd_ctx c r d s)) = slack s"
  "clock (sys (snd (fill_cmd_ctx c r d s))) = clock (sys s)"
  "ticks (sys (snd (fill_cmd_ctx c r d s))) = ticks (sys s)"
  by (auto simp: fill_cmd_ctx_def split: option.splits)

lemma tokens_upto_length: "length (tokens_upto n s) \<le> n"
  by (induction n arbitrary: s) (auto split: option.splits)

lemma tokens_upto_sound:
  "t \<in> set (tokens_upto n s) \<Longrightarrow> t \<noteq> [] \<and> (\<forall>c\<in>set t. \<not> is_blank c) \<and> length t \<le> length s"
proof (induction n arbitrary: s)
  case (Suc n)
  then obtain u r where u: "strtok_r is_blank s = Some (u, r)" and "t = u \<or> t \<in> set (tokens_upto n r)"
    by (cases "strtok_r is_blank s") auto
  then show ?case using strtok_r_SomeD [OF u] Suc.IH [of r] by auto
qed simp

text \<open>A request line whose words are separated by single blanks is cut into its words.\<close>

lemma tokens_upto_words:
  assumes "\<forall>w\<in>set ws. w \<noteq> [] \<and> (\<forall>c\<in>set w. \<not> is_blank c)" "length ws \<le> n"
  shows "tokens_upto n (concat (map (\<lambda>w. w @ '' '') ws)) = ws"
  using assms
proof (induction ws arbitrary: n)
  case Nil
  then show ?case by (cases n) auto
next
  case (Cons w ws)
  then obtain k where k: "n = Suc k" by (cases n) auto
  have "strtok_r is_blank (w @ CHR '' '' # concat (map (\<lambda>w. w @ '' '') ws)) =
      Some (w, concat (map (\<lambda>w. w @ '' '') ws))"
    using Cons.prems by (intro strtok_r_token) (auto simp: is_blank_def)
  then show ?case using Cons k by simp
qed

text \<open>A read returns as soon as some later read is not interrupted.\<close>

lemma socket_read_returns:
  assumes "recv_res (sys s) (n_recv (sys s) + k) \<noteq> Interrupted"
  shows "\<exists>r. socket_read_data sock buf n s = Some r"
  using assms
proof (induction k arbitrary: s)
  case 0
  then show ?case
    by (subst socket_read_data.simps) (auto simp: recv_next_def split: recv_result.splits)
next
  case (Suc k)
  show ?case
  proof (cases "recv_res (sys s) (n_recv (sys s)) = Interrupted")
    case True
    then have "socket_read_data sock buf n s = socket_read_data sock buf n (snd (recv_next s))"
      by (subst socket_read_data.simps) (simp add: recv_next_def)
    moreover have "\<exists>r. socket_read_data sock buf n (snd (recv_next s)) = Some r"
      by (rule Suc.IH) (use Suc.prems in \<open>simp add: recv_next_def\<close>)
    ultimately show ?thesis by simp
  next
    case False
    then show ?thesis
      by (subst socket_read_data.simps) (auto simp: recv_next_def split: recv_result.splits)
  qed
qed

text \<open>What a successful read delivers is a line, shorter than the buffer.\<close>

lemma first_line_props: "c \<in> set (first_line t) \<Longrightarrow> c \<noteq> LF \<and> c \<noteq> NUL"
  unfolding first_line_def by (auto dest: set_takeWhileD)

lemma length_first_line: "length (first_line (take n t)) \<le> n"
  unfolding first_line_def by (metis length_take length_takeWhile_le min.cobounded2 le_trans)

end
