(* ===== verification/Hash.thy ===== *)
theory Hash
  imports Common Ttl
begin

text \<open>
  \<open>src/hash.c\<close>: the table of 101 buckets, each a singly linked list of entries, with
  expiry checked lazily on access. Operations are in the order in which they call each
  other; the source declares \<open>hash_delete\<close> in its header and uses it earlier.
\<close>

definition MOD :: nat where "MOD = 101"

text \<open>\<open>MAX_ALLOWED\<close> is \<open>LONG_MAX\<close>, compared with a \<open>size_t\<close>.\<close>

definition MAX_ALLOWED :: "64 word" where "MAX_ALLOWED = 9223372036854775807"

text \<open>DJB2 on unsigned 64-bit arithmetic; a character is added as a signed \<open>int\<close>.\<close>

definition djb2_step :: "64 word \<Rightarrow> char \<Rightarrow> 64 word" where
  "djb2_step hash c = (push_bit 5 hash + hash) + word_of_int (signed_char c)"

definition string_folding_hash :: "string \<Rightarrow> nat" where
  "string_folding_hash k = unat (foldl djb2_step 5381 k) mod MOD"

text \<open>\<open>ht->buckets[idx]\<close>\<close>

definition bucket_at :: "db \<Rightarrow> nat \<Rightarrow> addr option option" where
  "bucket_at s idx = (if idx < length (buckets (ht s)) then Some (buckets (ht s) ! idx) else None)"

definition set_bucket :: "db \<Rightarrow> nat \<Rightarrow> addr option \<Rightarrow> db" where
  "set_bucket s idx p = s\<lparr>ht := (ht s)\<lparr>buckets := (buckets (ht s))[idx := p]\<rparr>\<rparr>"

definition set_count :: "db \<Rightarrow> 64 word \<Rightarrow> db" where
  "set_count s n = s\<lparr>ht := (ht s)\<lparr>ht_count := n\<rparr>\<rparr>"

definition put_ent :: "db \<Rightarrow> addr \<Rightarrow> Entry \<Rightarrow> db" where
  "put_ent s a e = s\<lparr>mem := put_entry (mem s) a e\<rparr>"

text \<open>
  The loop of every lookup:
  \<open>while (temp != NULL && strcmp(temp->key, k) != 0) temp = temp->next;\<close>
\<close>

partial_function (option) find_entry ::
  "(addr \<Rightarrow> Entry option) \<Rightarrow> addr option \<Rightarrow> string \<Rightarrow> addr option option" where
  "find_entry st temp k =
     (case temp of
        None \<Rightarrow> Some None
      | Some a \<Rightarrow> st a \<bind> (\<lambda>e. if e_key e \<noteq> k then find_entry st (e_next e) k else Some (Some a)))"

text \<open>
  The loop of an insertion:
  \<open>while (temp->next != NULL && strcmp(temp->key, e->key) != 0) temp = temp->next;\<close>
\<close>

partial_function (option) find_last ::
  "(addr \<Rightarrow> Entry option) \<Rightarrow> addr \<Rightarrow> string \<Rightarrow> addr option" where
  "find_last st a k =
     st a \<bind> (\<lambda>e. case e_next e of
        None \<Rightarrow> Some a
      | Some b \<Rightarrow> if e_key e \<noteq> k then find_last st b k else Some a)"

text \<open>The loop of a deletion, which also remembers the node before.\<close>

partial_function (option) find_prev ::
  "(addr \<Rightarrow> Entry option) \<Rightarrow> addr option \<Rightarrow> addr option \<Rightarrow> string \<Rightarrow> (addr option \<times> addr option) option" where
  "find_prev st prev cur k =
     (case cur of
        None \<Rightarrow> Some (prev, None)
      | Some a \<Rightarrow> st a \<bind> (\<lambda>e. if e_key e \<noteq> k then find_prev st (Some a) (e_next e) k else Some (prev, Some a)))"

text \<open>
  \<open>temp->value = strdup(v)\<close> after \<open>free(temp->value)\<close>. A refused copy leaves a null
  pointer that nothing checks: the model has no state to go on.
\<close>

definition replace_value :: "addr \<Rightarrow> string \<Rightarrow> db \<Rightarrow> db option" where
  "replace_value a v s = do {
     let (ok, s1) = malloc_ok s;
     guard ok;
     x \<leftarrow> ents (mem s1) a;
     Some (put_ent s1 a (x\<lparr>e_value := v\<rparr>)) }"

definition add_kv_in_arr :: "nat \<Rightarrow> addr \<Rightarrow> db \<Rightarrow> (err_t \<times> db) option" where
  "add_kv_in_arr idx e s = do {
     x \<leftarrow> ents (mem s) e;
     head \<leftarrow> bucket_at s idx;
     if ht_count (ht s) + 1 \<ge> MAX_ALLOWED then do {
       temp \<leftarrow> find_entry (ents (mem s)) head (e_key x);
       case temp of
         Some t \<Rightarrow> do { s1 \<leftarrow> replace_value t (e_value x) s; Some (DB_ERR_KEY_EXISTS, s1) }
       | None \<Rightarrow> Some (ERR_FULL, s) }
     else (case head of
         None \<Rightarrow>
           (let s1 = set_bucket s idx (Some e)
            in Some (DB_ERR_OK, set_count s1 (ht_count (ht s1) + 1)))
       | Some h \<Rightarrow> do {
           temp \<leftarrow> find_last (ents (mem s)) h (e_key x);
           t \<leftarrow> ents (mem s) temp;
           if e_key t = e_key x then do {
             s1 \<leftarrow> replace_value temp (e_value x) s;
             Some (DB_ERR_KEY_EXISTS, s1) }
           else
             (let s1 = put_ent s temp (t\<lparr>e_next := Some e\<rparr>)
              in Some (DB_ERR_OK, set_count s1 (ht_count (ht s1) + 1))) }) }"

definition hash_delete :: "string \<Rightarrow> cmd_ctx option \<Rightarrow> db \<Rightarrow> (err_t \<times> cmd_ctx option \<times> db) option" where
  "hash_delete k ctx s = do {
     let idx = string_folding_hash k;
     head \<leftarrow> bucket_at s idx;
     (prev, cur) \<leftarrow> find_prev (ents (mem s)) None head k;
     case cur of
       None \<Rightarrow> (let (ctx', s1) = fill_cmd_ctx ctx DB_ERR_KEY_NOTEXIST ''ERR'' s
                in Some (DB_ERR_KEY_NOTEXIST, ctx', s1))
     | Some c \<Rightarrow> do {
         x \<leftarrow> ents (mem s) c;
         s1 \<leftarrow> (case prev of
                  None \<Rightarrow> Some (set_bucket s idx (e_next x))
                | Some p \<Rightarrow> do { y \<leftarrow> ents (mem s) p; Some (put_ent s p (y\<lparr>e_next := e_next x\<rparr>)) });
         let s2 = set_count s1 (ht_count (ht s1) - 1);
         s3 \<leftarrow> (if e_heap_index x \<noteq> SIZE_MAX \<and> e_expiry x \<noteq> LONG_MAX
                then do { (r, h', m') \<leftarrow> heap_remove (ttl s2) (mem s2) c; Some (s2\<lparr>ttl := h', mem := m'\<rparr>) }
                else Some s2);
         let s4 = s3\<lparr>mem := free_entry (mem s3) c\<rparr>;
         (let (ctx', s5) = fill_cmd_ctx ctx DB_ERR_OK ''OK'' s4 in Some (DB_ERR_OK, ctx', s5)) } }"

definition lazy_expire_and_delete :: "addr \<Rightarrow> db \<Rightarrow> (err_t \<times> db) option" where
  "lazy_expire_and_delete e s = do {
     x \<leftarrow> ents (mem s) e;
     let (now, s1) = time_NULL s;
     if e_expiry x > now \<or> e_expiry x = -1 then Some (DB_ERR_KEY_NOT_EXPIRED, s1)
     else do {
       (r, h', m') \<leftarrow> heap_remove (ttl s1) (mem s1) e;
       let s2 = s1\<lparr>ttl := h', mem := m', SILENT := True\<rparr>;
       y \<leftarrow> ents (mem s2) e;
       (r', ctx', s3) \<leftarrow> hash_delete (e_key y) None s2;
       Some (DB_ERR_KEY_EXPIRED, s3\<lparr>SILENT := False\<rparr>) } }"

text \<open>
  The common head of the readers: find the key and drop it when it has expired. The
  result is the live entry, if there is one.
\<close>

definition find_live :: "string \<Rightarrow> db \<Rightarrow> (addr option \<times> db) option" where
  "find_live k s = do {
     head \<leftarrow> bucket_at s (string_folding_hash k);
     temp \<leftarrow> find_entry (ents (mem s)) head k;
     case temp of
       None \<Rightarrow> Some (None, s)
     | Some a \<Rightarrow> do {
         x \<leftarrow> ents (mem s) a;
         if e_key x \<noteq> k then Some (None, s)
         else do {
           (r, s1) \<leftarrow> lazy_expire_and_delete a s;
           Some (if r = DB_ERR_KEY_EXPIRED then None else Some a, s1) } } }"

definition hash_get_expiry :: "string \<Rightarrow> cmd_ctx option \<Rightarrow> db \<Rightarrow> (err_t \<times> cmd_ctx option \<times> db) option" where
  "hash_get_expiry k ctx s = do {
     (temp, s1) \<leftarrow> find_live k s;
     (res, resp) \<leftarrow> (case temp of
         None \<Rightarrow> Some (DB_ERR_KEY_NOTEXIST, RED @ ''ERR'' @ RESET)
       | Some a \<Rightarrow> do {
           x \<leftarrow> ents (mem s1) a;
           Some (DB_ERR_OK, if e_expiry x \<noteq> -1 then show_zu (e_expiry x) else RED @ ''NULL'' @ RESET) });
     let (ctx', s2) = fill_cmd_ctx ctx res resp s1;
     Some (res, ctx', s2) }"

definition hash_get :: "string \<Rightarrow> cmd_ctx option \<Rightarrow> db \<Rightarrow> (err_t \<times> cmd_ctx option \<times> db) option" where
  "hash_get k ctx s = do {
     (temp, s1) \<leftarrow> find_live k s;
     (res, resp) \<leftarrow> (case temp of
         None \<Rightarrow> Some (DB_ERR_KEY_NOTEXIST, ''ERR'')
       | Some a \<Rightarrow> do {
           x \<leftarrow> ents (mem s1) a;
           text \<leftarrow> sprintf_to (MAX_RESP_LEN + slack s1) (e_value x);
           Some (DB_ERR_OK, text) });
     let (ctx', s2) = fill_cmd_ctx ctx res resp s1;
     Some (res, ctx', s2) }"

definition hash_exists :: "string \<Rightarrow> cmd_ctx option \<Rightarrow> db \<Rightarrow> (err_t \<times> cmd_ctx option \<times> db) option" where
  "hash_exists k ctx s = do {
     (temp, s1) \<leftarrow> find_live k s;
     let (res, resp) = (case temp of
         None \<Rightarrow> (DB_ERR_KEY_NOTEXIST, BOLD @ RED @ ''FALSE'' @ RESET)
       | Some a \<Rightarrow> (DB_ERR_OK, BOLD @ GREEN @ ''TRUE'' @ RESET));
     let (ctx', s2) = fill_cmd_ctx ctx res resp s1;
     Some (res, ctx', s2) }"

text \<open>
  \<open>hash_insert\<close>: a new entry is built first; on an update or a full table it is freed
  again. When the first allocation is refused it returns at once, without an answer.
\<close>

definition hash_insert :: "string \<Rightarrow> string \<Rightarrow> cmd_ctx option \<Rightarrow> db \<Rightarrow> (err_t \<times> cmd_ctx option \<times> db) option" where
  "hash_insert k v ctx s = do {
     let idx = string_folding_hash k;
     let (ok, s1) = malloc_ok s;
     if \<not> ok then Some (DB_ERR_NOMEM, ctx, s1)
     else do {
       let (ok_key, s2) = malloc_ok s1;
       guard ok_key;
       let (ok_val, s3) = malloc_ok s2;
       guard ok_val;
       let (kv, m) = new_entry (mem s3) \<lparr>e_key = k, e_value = v, e_next = None, e_prev = None,
                                         e_expiry = -1, e_heap_index = SIZE_MAX\<rparr>;
       (res, s4) \<leftarrow> add_kv_in_arr idx kv (s3\<lparr>mem := m\<rparr>);
       if res = DB_ERR_OK then
         (let (ctx', s5) = fill_cmd_ctx ctx DB_ERR_OK ''OK'' s4 in Some (DB_ERR_OK, ctx', s5))
       else if res = DB_ERR_KEY_EXISTS then
         (let (ctx', s5) = fill_cmd_ctx ctx DB_ERR_OK ''OK'' (s4\<lparr>mem := free_entry (mem s4) kv\<rparr>)
          in Some (DB_ERR_OK, ctx', s5))
       else
         (let (ctx', s5) = fill_cmd_ctx ctx res ''ERR'' (s4\<lparr>mem := free_entry (mem s4) kv\<rparr>)
          in Some (res, ctx', s5)) } }"

definition hash_get_kv :: "string \<Rightarrow> db \<Rightarrow> (addr option \<times> db) option" where
  "hash_get_kv k s = do {
     head \<leftarrow> bucket_at s (string_folding_hash k);
     temp \<leftarrow> find_entry (ents (mem s)) head k;
     case temp of
       None \<Rightarrow> Some (None, s)
     | Some a \<Rightarrow> do {
         (r, s1) \<leftarrow> lazy_expire_and_delete a s;
         Some (if r = DB_ERR_KEY_EXPIRED then None else Some a, s1) } }"

definition hash_update_expiry :: "string \<Rightarrow> int \<Rightarrow> cmd_ctx option \<Rightarrow> db \<Rightarrow> (err_t \<times> cmd_ctx option \<times> db) option" where
  "hash_update_expiry k duration ctx s = do {
     (kv, s1) \<leftarrow> hash_get_kv k s;
     case kv of
       None \<Rightarrow> (let (ctx', s2) = fill_cmd_ctx ctx DB_ERR_KEY_NOTEXIST ''NULL'' s1
                in Some (DB_ERR_KEY_NOTEXIST, ctx', s2))
     | Some a \<Rightarrow> do {
         x \<leftarrow> ents (mem s1) a;
         s2 \<leftarrow> (if e_heap_index x \<noteq> SIZE_MAX
                then do { (r, h', m') \<leftarrow> heap_remove (ttl s1) (mem s1) a; Some (s1\<lparr>ttl := h', mem := m'\<rparr>) }
                else Some s1);
         let (now, s3) = time_NULL s2;
         t \<leftarrow> long_add now duration;
         y \<leftarrow> ents (mem s3) a;
         let s4 = put_ent s3 a (y\<lparr>e_expiry := t\<rparr>);
         (res, h', m') \<leftarrow> heap_insert (ttl s4) (mem s4) a;
         let s5 = s4\<lparr>ttl := h', mem := m'\<rparr>;
         (let (ctx', s6) = fill_cmd_ctx ctx res (if res \<noteq> DB_ERR_OK then ''ERR'' else ''OK'') s5
          in Some (res, ctx', s6)) } }"

text \<open>\<open>ht_init\<close>: a refused struct leaves the global null; a refused array is not checked.\<close>

definition empty_table :: HashTable where
  "empty_table = \<lparr>buckets = replicate MOD None, ht_size = MOD, ht_count = 0\<rparr>"

definition ht_init :: "db \<Rightarrow> (bool \<times> db) option" where
  "ht_init s = do {
     let (ok, s1) = malloc_ok s;
     if \<not> ok then Some (False, s1)
     else do {
       let (ok2, s2) = malloc_ok s1;
       guard ok2;
       Some (True, s2\<lparr>ht := empty_table\<rparr>) } }"

end
