(* ===== verification/Dbsave.thy ===== *)
theory Dbsave
  imports Hash
begin

text \<open>
  \<open>src/dbsave.c\<close>: the save file. Writing prints one line for each bucket that is not
  empty, between two lines \<open>$\<close>; reading toggles \<open>process_save\<close> at every \<open>$\<close> and inserts
  the entries of the lines in between.
\<close>

definition KV_LEN :: "64 word" where "KV_LEN = 1024"
definition FILE_HEADER_VER :: string where "FILE_HEADER_VER = ''SahDB001''"

section \<open>Writing\<close>

text \<open>
  The expiry is printed into \<open>char expiry[20]\<close>; -1 stands in the file for the expiry
  \<open>LONG_MAX\<close>.
\<close>

definition expiry_text :: "nat \<Rightarrow> int \<Rightarrow> string option" where
  "expiry_text sl x = sprintf_to (20 + sl) (if x \<noteq> LONG_MAX then show_zu x else ''-1'')"

text \<open>
  The loop over the list of a bucket; \<open>data\<close> are the bytes written so far, and their number is
  \<open>int data_idx\<close>.
\<close>

partial_function (option) kv_loop ::
  "(addr \<Rightarrow> Entry option) \<Rightarrow> nat \<Rightarrow> nat \<Rightarrow> addr option \<Rightarrow> string \<Rightarrow> string option" where
  "kv_loop st sl cap node data =
     (case node of
        None \<Rightarrow> Some data
      | Some a \<Rightarrow> st a \<bind> (\<lambda>x. expiry_text sl (e_expiry x) \<bind> (\<lambda>ex.
          let data' = data @ e_key x @ ''!'' @ e_value x @ ''!'' @ ex @ ''|''
          in guard (length data' \<le> cap \<and> length data' \<le> INT_MAX) \<bind> (\<lambda>_. kv_loop st sl cap (e_next x) data'))))"

text \<open>
  \<open>get_kv_from_bucket\<close>: the buffer has \<open>KV_LEN * (ht->count + 1)\<close> bytes and a byte past
  its end is undefined; the last separator becomes the terminating zero.
\<close>

definition get_kv_from_bucket :: "addr option \<Rightarrow> db \<Rightarrow> (string option \<times> db) option" where
  "get_kv_from_bucket node s =
     (case node of
        None \<Rightarrow> Some (None, s)
      | Some _ \<Rightarrow>
          (let (ok, s1) = malloc_ok s
           in if \<not> ok then Some (None, s1)
              else do {
                data \<leftarrow> kv_loop (ents (mem s1)) (slack s1) (unat (KV_LEN * (ht_count (ht s1) + 1))) node [];
                Some (Some (butlast data), s1) }))"

text \<open>The loop over the buckets; \<open>txt\<close> is what the stream received so far.\<close>

primrec save_buckets :: "nat list \<Rightarrow> string \<Rightarrow> db \<Rightarrow> (string \<times> db) option" where
  "save_buckets [] txt s = Some (txt, s)"
| "save_buckets (i # is) txt s = do {
     node \<leftarrow> bucket_at s i;
     (data, s1) \<leftarrow> get_kv_from_bucket node s;
     save_buckets is
       (case data of None \<Rightarrow> txt
        | Some d \<Rightarrow> if 0 < length d then txt @ ''$'' @ [LF] @ d @ [LF] @ ''$'' @ [LF] else txt) s1 }"

definition write_file :: "string \<Rightarrow> string \<Rightarrow> db \<Rightarrow> db" where
  "write_file path txt s = s\<lparr>sys := (sys s)\<lparr>files := (files (sys s))(path \<mapsto> txt)\<rparr>\<rparr>"

definition fetch_dataset_from_memory :: "db \<Rightarrow> (err_t \<times> db) option" where
  "fetch_dataset_from_memory s = do {
     path \<leftarrow> path_of (savefile (host_config s));
     if \<not> writable (sys s) path then do {
       resp \<leftarrow> sprintf_to (MAX_RESP_LEN + slack s) (''Error opening '' @ path @ '' file'');
       Some (DB_ERR_FILE_INACCESSIBLE, send_info_to_user resp s) }
     else do {
       (txt, s1) \<leftarrow> save_buckets [0..<ht_size (ht s)] (FILE_HEADER_VER @ [LF]) s;
       let s2 = write_file path txt s1;
       resp \<leftarrow> sprintf_to (MAX_RESP_LEN + slack s) (''Data from disk written to '' @ path);
       Some (DB_ERR_OK, send_info_to_user resp s2) } }"

section \<open>Reading\<close>

definition is_bar :: "char \<Rightarrow> bool" where "is_bar c \<longleftrightarrow> c = CHR ''|''"
definition is_bang :: "char \<Rightarrow> bool" where "is_bang c \<longleftrightarrow> c = CHR ''!''"

text \<open>\<open>strtok_r\<close> as the code calls it: a token or the null pointer, and what is left.\<close>

definition next_field :: "string \<Rightarrow> string option \<times> string" where
  "next_field s = (case strtok_r is_bang s of None \<Rightarrow> (None, []) | Some (t, r) \<Rightarrow> (Some t, r))"

text \<open>
  One entry \<open>key!value!expiry\<close>. A missing key or value is a null pointer that
  \<open>hash_insert\<close> reads. The results of the insertion and the deletion are ignored. The new
  expiry is written to the entry only, not to the expiry heap.
\<close>

definition process_kv :: "string \<Rightarrow> db \<Rightarrow> db option" where
  "process_kv kv s = do {
     let (key, r1) = next_field kv;
     let (val, r2) = next_field r1;
     let (exp, r3) = next_field r2;
     k \<leftarrow> key;
     v \<leftarrow> val;
     (res, ctx, s1) \<leftarrow> hash_insert k v None s;
     if exp \<noteq> None \<and> exp \<noteq> Some ''-1'' then do {
       let expiry_time = atol (the exp);
       let (curtime, s2) = time_NULL s1;
       if expiry_time \<le> curtime then do {
         (res', ctx', s3) \<leftarrow> hash_delete k None s2;
         Some s3 }
       else do {
         (e, s3) \<leftarrow> hash_get_kv k s2;
         case e of
           None \<Rightarrow> Some s3
         | Some a \<Rightarrow> do { x \<leftarrow> ents (mem s3) a; Some (put_ent s3 a (x\<lparr>e_expiry := expiry_time\<rparr>)) } } }
     else Some s1 }"

function process_kvs :: "string \<Rightarrow> db \<Rightarrow> db option" where
  "process_kvs line s =
     (case strtok_r is_bar line of
        None \<Rightarrow> Some s
      | Some (kv, rest) \<Rightarrow> process_kv kv s \<bind> (\<lambda>s1. process_kvs rest s1))"
  by pat_completeness auto
termination
proof (relation "measure (\<lambda>(line, s). length line)")
  fix line s p kv rest s1 assume "strtok_r is_bar line = Some p" "(kv, rest) = p"
  then have "strtok_r is_bar line = Some (kv, rest)" by simp
  from strtok_r_SomeD [OF this] have "kv \<noteq> []" "length kv + length rest \<le> length line" by auto
  then have "length rest < length line" by (cases kv) auto
  then show "((rest, s1), (line, s)) \<in> measure (\<lambda>(line, s). length line)" by simp
qed simp

declare process_kvs.simps [simp del]

definition process_save_data :: "string \<Rightarrow> db \<Rightarrow> db option" where
  "process_save_data line s =
     (if line = ''$'' then Some (s\<lparr>process_save := \<not> process_save s\<rparr>)
      else if process_save s then process_kvs line s
      else Some s)"

text \<open>
  \<open>fgets(line, n, fp)\<close>: at most \<open>n - 1\<close> bytes, up to and with the first line end. The
  result is the bytes read and the rest of the file.
\<close>

definition fgets :: "nat \<Rightarrow> string \<Rightarrow> string \<times> string" where
  "fgets n txt =
     (let len = length (takeWhile (\<lambda>c. c \<noteq> LF) txt) + 1; m = min len (n - 1)
      in (take m txt, drop m txt))"

text \<open>The C string in \<open>line\<close>, its line end cut off.\<close>

definition chomp :: "string \<Rightarrow> string" where
  "chomp bs = (let l = takeWhile (\<lambda>c. c \<noteq> NUL) bs in if l \<noteq> [] \<and> last l = LF then butlast l else l)"

lemma fgets_shorter: "txt \<noteq> [] \<Longrightarrow> 1 < n \<Longrightarrow> length (snd (fgets n txt)) < length txt"
  by (cases "txt") (auto simp: fgets_def Let_def)

function rebuild_lines :: "string \<Rightarrow> db \<Rightarrow> db option" where
  "rebuild_lines txt s =
     (if txt = [] then Some s
      else process_save_data (chomp (fst (fgets MAX_RESP_LEN txt))) (s\<lparr>SILENT := True\<rparr>) \<bind>
        (\<lambda>s1. rebuild_lines (snd (fgets MAX_RESP_LEN txt)) (s1\<lparr>SILENT := False\<rparr>)))"
  by pat_completeness auto
termination
  by (relation "measure (\<lambda>(txt, s). length txt)") (auto simp: fgets_shorter)

declare rebuild_lines.simps [simp del]

text \<open>When the file cannot be opened the response that is printed was never written.\<close>

definition rebuild_from_savefile :: "db \<Rightarrow> (err_t \<times> db) option" where
  "rebuild_from_savefile s = do {
     path \<leftarrow> path_of (savefile (host_config s));
     case files (sys s) path of
       None \<Rightarrow> do { s1 \<leftarrow> send_resp None s; Some (DB_ERR_GENERIC_FAIL, s1) }
     | Some content \<Rightarrow> do {
         s1 \<leftarrow> rebuild_lines content s;
         Some (DB_ERR_OK, send_info_to_user ''FILE READ!'' s1) } }"

end
