(* ===== verification/Command.thy ===== *)
theory Command
  imports Dbsave
begin

text \<open>
  \<open>src/command.c\<close>: the commands of the database, one handler each, and the table that
  names them. A handler gets the number of words, the words and the context; its result
  is the return code. Every handler ends in \<open>fill_cmd_ctx\<close>, which does nothing for an
  empty response.
\<close>

type_synonym handler = "nat \<Rightarrow> string list \<Rightarrow> cmd_ctx option \<Rightarrow> db \<Rightarrow> (err_t \<times> cmd_ctx option \<times> db) option"

text \<open>\<open>cmd_arr[i]\<close>: a cell the tokenizer did not fill is undefined.\<close>

definition word_at :: "string list \<Rightarrow> nat \<Rightarrow> string option" where
  "word_at cmd_arr i = (if i < length cmd_arr then Some (cmd_arr ! i) else None)"

section \<open>Ending a session\<close>

definition exit_helper :: handler where
  "exit_helper argc cmd_arr ctx s =
     (if argc \<noteq> 1 then Some (answer ctx DB_ERR_INVALID_ARGS (RED @ ''ERR'' @ RESET) s)
      else Some (answer ctx DB_ERR_EXIT (RED @ BOLD @ ''Bye...'' @ RESET) s))"

definition shutdown_helper :: handler where
  "shutdown_helper argc cmd_arr ctx s =
     (if argc \<noteq> 1 then Some (answer ctx DB_ERR_INVALID_ARGS (RED @ ''ERR'' @ RESET) s)
      else Some (answer ctx DB_ERR_SHUTDOWN (RED @ BOLD @ ''Goodbye...'' @ RESET) s))"

section \<open>Keys\<close>

definition set_key_val_helper :: handler where
  "set_key_val_helper argc cmd_arr ctx s =
     (if argc \<noteq> 3 then Some (answer ctx DB_ERR_INVALID_ARGS (RED @ ''ERR'' @ RESET) s)
      else do {
        key \<leftarrow> word_at cmd_arr 1;
        val \<leftarrow> word_at cmd_arr 2;
        (res, ctx1, s1) \<leftarrow> hash_insert key val ctx s;
        Some (answer ctx1 res [] s1) })"

text \<open>\<open>GET key\<close> reads the value, \<open>GET key ex\<close> the expiry; other words are not answered.\<close>

definition get_val_from_key_helper :: handler where
  "get_val_from_key_helper argc cmd_arr ctx s =
     (if argc < 2 then
        Some (answer ctx DB_ERR_INVALID_ARGS (RED @ ''Incorrect number of args passed, run HELP GET'' @ RESET) s)
      else do {
        (res1, ctx1, s1) \<leftarrow>
          (if argc = 2 then do { key \<leftarrow> word_at cmd_arr 1; hash_get key ctx s }
           else Some (DB_ERR_OK, ctx, s));
        (res2, ctx2, s2) \<leftarrow>
          (if argc = 3 then do {
             w \<leftarrow> word_at cmd_arr 2;
             if strcaseeq w ''ex'' then do { key \<leftarrow> word_at cmd_arr 1; hash_get_expiry key ctx1 s1 }
             else Some (res1, ctx1, s1) }
           else Some (res1, ctx1, s1));
        Some (answer ctx2 res2 [] s2) })"

definition exists_helper :: handler where
  "exists_helper argc cmd_arr ctx s =
     (if argc \<noteq> 2 then
        (let resp = RED @ ''Incorrect number of args passed, run HELP EXISTS'' @ RESET
         in Some (answer ctx DB_ERR_INVALID_ARGS resp (send_info_to_user resp s)))
      else do {
        key \<leftarrow> word_at cmd_arr 1;
        (res, ctx1, s1) \<leftarrow> hash_exists key ctx s;
        Some (answer ctx1 res [] s1) })"

definition delete_key_value_helper :: handler where
  "delete_key_value_helper argc cmd_arr ctx s =
     (if argc \<noteq> 2 then Some (answer ctx DB_ERR_INVALID_ARGS ''ERR'' (send_info_to_user ''ERR'' s))
      else do {
        key \<leftarrow> word_at cmd_arr 1;
        (res, ctx1, s1) \<leftarrow> hash_delete key ctx s;
        Some (answer ctx1 res [] s1) })"

text \<open>
  \<open>EXPIRE key n\<close> first asks whether the key exists, in silence. When it does not, the
  return code is 0 and the answer of \<open>hash_exists\<close> stands.
\<close>

definition expire_key_val :: handler where
  "expire_key_val argc cmd_arr ctx s =
     (if argc \<noteq> 3 then Some (answer ctx DB_ERR_INVALID_ARGS ''ERR'' (send_info_to_user ''ERR'' s))
      else do {
        key \<leftarrow> word_at cmd_arr 1;
        w \<leftarrow> word_at cmd_arr 2;
        let expiry = atol w;
        (key_exists_in_ht, ctx1, s1) \<leftarrow> hash_exists key ctx (s\<lparr>SILENT := True\<rparr>);
        let s2 = s1\<lparr>SILENT := False\<rparr>;
        (res, ctx2, s3) \<leftarrow>
          (if key_exists_in_ht = 0 then hash_update_expiry key expiry ctx1 s2
           else Some (DB_ERR_OK, ctx1, s2));
        Some (answer ctx2 res [] s3) })"

text \<open>\<open>SAVE\<close> answers \<open>OK\<close> to a client whatever happened.\<close>

definition save_helper :: handler where
  "save_helper argc cmd_arr ctx s = do {
     (res, resp, s1) \<leftarrow>
       (if argc \<noteq> 1 then Some (DB_ERR_INVALID_ARGS, ''OK'', s)
        else do { (r, s1) \<leftarrow> fetch_dataset_from_memory s; Some (r, [], s1) });
     Some (answer ctx res (if ctx \<noteq> None then ''OK'' else resp) s1) }"

section \<open>Help\<close>

text \<open>A row of \<open>commands[]\<close> as \<open>HELP\<close> reads it: name and usage.\<close>

definition usages :: "(string \<times> string) list" where
  "usages =
    [(''HELP'', ''Display the help menu                      : '' @ BOLD @ GREEN @ ''HELP'' @ RESET),
     (''SET'', ''Add/Update Key-Value pair in the dataset   : '' @ BOLD @ GREEN @ ''SET key val'' @ RESET),
     (''EXISTS'', ''Check if a key exits in dataset            : '' @ BOLD @ GREEN @ ''EXISTS key'' @ RESET),
     (''GET'', ''Print the value corresponding to a key     : '' @ BOLD @ GREEN @ ''GET key'' @ RESET),
     (''DELETE'', ''Remove Key-Value pair from the dataset     : '' @ BOLD @ RED @ ''DELETE key'' @ RESET),
     (''EXPIRE'', ''Add/Update expuration time of KV pair      : '' @ BOLD @ RED @ ''EXPIRE key time_in_sec'' @ RESET),
     (''SAVE'', ''Save the data from dataset to file         : '' @ BOLD @ GREEN @ ''SAVE'' @ RESET),
     (''EXIT'', ''Exit out of the User|Replica connection    : '' @ BOLD @ RED @ ''EXIT'' @ RESET),
     (''SHUTDOWN'', ''SHUTDOWN the DB server                     : '' @ BOLD @ RED @ ''SHUTDOWN'' @ RESET)]"

text \<open>The index of the first \<open>c\<close>, if there is one.\<close>

definition strchr :: "string \<Rightarrow> char \<Rightarrow> nat option" where
  "strchr s c = (if c \<in> set s then Some (length (takeWhile (\<lambda>x. x \<noteq> c) s)) else None)"

definition desc_len :: "string \<Rightarrow> nat" where
  "desc_len usage = (case strchr usage CHR '':'' of None \<Rightarrow> length usage | Some i \<Rightarrow> i)"

definition pad :: "nat \<Rightarrow> string \<Rightarrow> string" where
  "pad n s = s @ replicate (n - length s) CHR '' ''"

definition help_row :: "nat \<Rightarrow> nat \<Rightarrow> string \<times> string \<Rightarrow> string" where
  "help_row max_cmd_len max_desc_len row =
     (let cmd = fst row; usage = snd row;
          syntax_part = (case strchr usage CHR '':'' of None \<Rightarrow> [] | Some i \<Rightarrow> drop (Suc i) usage)
      in pad max_cmd_len cmd @ [TAB] @ pad max_desc_len (take (desc_len usage) usage) @ '' :'' @ syntax_part @ [LF])"

text \<open>
  The formatting loop: it stops at the first row that does not fit and leaves the part
  \<open>snprintf\<close> wrote. \<open>n\<close> is \<open>resp_idx\<close>, \<open>resp\<close> the C string in the buffer.
\<close>

fun help_loop :: "string list \<Rightarrow> string \<Rightarrow> nat \<Rightarrow> string \<times> nat" where
  "help_loop [] resp n = (resp, n)"
| "help_loop (row # rows) resp n =
     (let resp' = take n resp @ take (MAX_RESP_LEN - n - 1) row
      in if MAX_RESP_LEN \<le> n + length row then (resp', n) else help_loop rows resp' (n + length row))"

definition help_text :: "(string \<times> string) list \<Rightarrow> string" where
  "help_text table =
     (let max_cmd_len = fold max (map (\<lambda>r. length (fst r)) table) 0;
          max_desc_len = fold max (map (\<lambda>r. desc_len (snd r)) table) 0;
          (resp, n) = help_loop (map (help_row max_cmd_len max_desc_len) table) [] 0
      in if 0 < n then take (n - 1) resp else resp)"

definition help_cmd :: "cmd_ctx option \<Rightarrow> db \<Rightarrow> err_t \<times> cmd_ctx option \<times> db" where
  "help_cmd ctx s = answer ctx DB_ERR_HELP (help_text usages) s"

text \<open>\<open>char resp[50]\<close>\<close>

definition printSubCommands :: "string \<Rightarrow> db \<Rightarrow> db option" where
  "printSubCommands arg s = do {
     resp \<leftarrow> sprintf_to (50 + slack s) (RED @ ''Not support subcmd print for '' @ arg @ '' yet'' @ RESET);
     Some (send_info_to_user resp s) }"

definition help_helper :: handler where
  "help_helper argc cmd_arr ctx s =
     (if argc = 1 then (let (r, ctx1, s1) = help_cmd ctx s in Some (DB_ERR_OK, ctx1, s1))
      else if argc = 2 then do {
        w \<leftarrow> word_at cmd_arr 1;
        if w \<noteq> [] then do { s1 \<leftarrow> printSubCommands w s; Some (DB_ERR_INVALID_ARGS, ctx, s1) }
        else Some (DB_ERR_OK, ctx, s) }
      else Some (DB_ERR_OK, ctx, s))"

section \<open>The table of commands\<close>

datatype commandNode = CommandNode (cn_name: string) (cn_subcmds: "commandNode list option") (cn_isCmd: bool)
  (cn_depth: int) (cn_func: handler) (cn_usage: string)

definition command_funcs :: "handler list" where
  "command_funcs = [help_helper, set_key_val_helper, exists_helper, get_val_from_key_helper,
     delete_key_value_helper, expire_key_val, save_helper, exit_helper, shutdown_helper]"

definition commands :: "commandNode list" where
  "commands = map2 (\<lambda>(name, usage) f. CommandNode name None True 0 f usage) usages command_funcs"

section \<open>What the handlers answer\<close>

lemma word_at_Cons [simp]: "word_at (w # ws) 0 = Some w" "word_at (w # ws) (Suc i) = word_at ws i"
  "word_at (w # x # ws) 1 = Some x" "word_at (w # x # y # ws) 2 = Some y"
  by (simp_all add: word_at_def)

lemma command_names: "map cn_name commands = [''HELP'', ''SET'', ''EXISTS'', ''GET'', ''DELETE'', ''EXPIRE'',
    ''SAVE'', ''EXIT'', ''SHUTDOWN'']"
  by (simp add: commands_def usages_def command_funcs_def)

lemma command_handlers: "map cn_func commands = command_funcs"
  by (simp add: commands_def usages_def command_funcs_def)

text \<open>The rows of \<open>HELP\<close> all fit, so its text is all of them without the last line end.\<close>

lemma help_loop_fits:
  "n = length resp \<Longrightarrow> n + length (concat rows) < MAX_RESP_LEN \<Longrightarrow>
    help_loop rows resp n = (resp @ concat rows, n + length (concat rows))"
proof (induction rows arbitrary: resp n)
  case (Cons row rows)
  have "help_loop (row # rows) resp n = help_loop rows (resp @ row) (n + length row)"
    using Cons.prems by (simp add: Let_def)
  also have "\<dots> = ((resp @ row) @ concat rows, n + length row + length (concat rows))"
    by (rule Cons.IH) (use Cons.prems in auto)
  finally show ?case by simp
qed simp

lemma help_widths: "fold max (map (\<lambda>r. length (fst r)) usages) 0 = 8" "fold max (map (\<lambda>r. desc_len (snd r)) usages) 0 = 43"
  by code_simp+

lemma help_length: "length (concat (map (help_row 8 43) usages)) = 701"
  by code_simp

lemma help_text_rows: "help_text usages = butlast (concat (map (help_row 8 43) usages))"
proof -
  let ?rows = "map (help_row 8 43) usages"
  have "help_loop ?rows [] 0 = (concat ?rows, 701)"
    using help_loop_fits [of 0 "[]" ?rows] help_length by simp
  then show ?thesis
    using help_length by (simp add: help_text_def help_widths butlast_conv_take)
qed

lemma help_text_nonempty: "help_text usages \<noteq> []"
proof -
  have "length (help_text usages) = 700" using help_length by (simp add: help_text_rows)
  then show ?thesis by auto
qed

text \<open>
  On any table the loop writes the longest run of rows from the top that leaves room for the
  terminating zero.
\<close>

lemma help_loop_prefix:
  assumes "n \<le> length resp" "n < MAX_RESP_LEN"
  shows "\<exists>k rest. help_loop rows resp n = (take n resp @ concat (take k rows) @ rest, n + length (concat (take k rows))) \<and>
    k \<le> length rows \<and> n + length (concat (take k rows)) < MAX_RESP_LEN \<and>
    (k = length rows \<or> MAX_RESP_LEN \<le> n + length (concat (take (Suc k) rows)))"
  using assms
proof (induction rows arbitrary: resp n)
  case Nil
  then show ?case by (intro exI [of _ 0] exI [of _ "drop n resp"]) simp
next
  case (Cons row rows)
  show ?case
  proof (cases "MAX_RESP_LEN \<le> n + length row")
    case True
    then show ?thesis using Cons.prems
      by (intro exI [of _ 0] exI [of _ "take (MAX_RESP_LEN - n - 1) row"]) (simp add: Let_def)
  next
    case False
    let ?resp = "take n resp @ row" and ?n = "n + length row"
    have step: "help_loop (row # rows) resp n = help_loop rows ?resp ?n" using False by (simp add: Let_def)
    obtain k rest where k: "help_loop rows ?resp ?n = (take ?n ?resp @ concat (take k rows) @ rest, ?n + length (concat (take k rows)))"
      "k \<le> length rows" "?n + length (concat (take k rows)) < MAX_RESP_LEN"
      "k = length rows \<or> MAX_RESP_LEN \<le> ?n + length (concat (take (Suc k) rows))"
      using Cons.IH [of ?n ?resp] Cons.prems False by auto
    have "take ?n ?resp = ?resp" using Cons.prems by simp
    then show ?thesis using k step by (intro exI [of _ "Suc k"] exI [of _ rest]) auto
  qed
qed

lemma fold_max_Max: "fold max (xs :: nat list) 0 = Max (insert 0 (set xs))"
  using Max.set_eq_fold [of 0 xs] by simp

lemma desc_part: "take (desc_len u) u = takeWhile (\<lambda>x. x \<noteq> CHR '':'') u" "desc_len u = length (takeWhile (\<lambda>x. x \<noteq> CHR '':'') u)"
proof -
  have "length (takeWhile (\<lambda>x. x \<noteq> CHR '':'') u) = length u" if "CHR '':'' \<notin> set u"
    using that by (subst takeWhile_eq_all_conv [THEN iffD2]) auto
  then show l: "desc_len u = length (takeWhile (\<lambda>x. x \<noteq> CHR '':'') u)" by (simp add: desc_len_def strchr_def)
  show "take (desc_len u) u = takeWhile (\<lambda>x. x \<noteq> CHR '':'') u" unfolding l by (simp add: takeWhile_eq_take [symmetric])
qed

lemma syntax_part: "(case strchr u CHR '':'' of None \<Rightarrow> [] | Some i \<Rightarrow> drop (Suc i) u) = drop 1 (dropWhile (\<lambda>x. x \<noteq> CHR '':'') u)"
proof (cases "CHR '':'' \<in> set u")
  case True
  have "drop (Suc (length (takeWhile (\<lambda>x. x \<noteq> CHR '':'') u))) u =
      drop 1 (drop (length (takeWhile (\<lambda>x. x \<noteq> CHR '':'') u)) u)" by simp
  then show ?thesis using True by (simp add: strchr_def dropWhile_eq_drop [symmetric])
next
  case False
  then have "dropWhile (\<lambda>x. x \<noteq> CHR '':'') u = []" unfolding dropWhile_eq_Nil_conv by blast
  then show ?thesis using False by (simp add: strchr_def del: dropWhile_eq_Nil_conv)
qed

lemma help_text_prefix:
  assumes w: "w = Max (insert 0 ((\<lambda>(name, usage). length name) ` set table))"
    and d: "d = Max (insert 0 ((\<lambda>(name, usage). length (takeWhile (\<lambda>x. x \<noteq> CHR '':'') usage)) ` set table))"
    and rows: "rows = map (\<lambda>(name, usage). name @ replicate (w - length name) CHR '' '' @ [TAB] @
        takeWhile (\<lambda>x. x \<noteq> CHR '':'') usage @ replicate (d - length (takeWhile (\<lambda>x. x \<noteq> CHR '':'') usage)) CHR '' '' @
        '' :'' @ drop 1 (dropWhile (\<lambda>x. x \<noteq> CHR '':'') usage) @ [LF]) table"
    and fst_fits: "rows \<noteq> []" "length (hd rows) < MAX_RESP_LEN"
  shows "\<exists>k. help_text table = butlast (concat (take k rows)) \<and> 0 < k \<and> k \<le> length rows \<and>
    length (concat (take k rows)) < MAX_RESP_LEN \<and> (k = length rows \<or> MAX_RESP_LEN \<le> length (concat (take (Suc k) rows)))"
proof -
  have ws: "fold max (map (\<lambda>r. length (fst r)) table) 0 = w" "fold max (map (\<lambda>r. desc_len (snd r)) table) 0 = d"
    unfolding fold_max_Max w d by (simp_all add: desc_part(2) case_prod_unfold image_image)
  have rw: "map (help_row w d) table = rows"
    unfolding rows
    by (rule map_cong [OF refl]) (simp only: help_row_def pad_def desc_part(1) syntax_part Let_def case_prod_unfold append_assoc)
  obtain k rest where k: "help_loop rows [] 0 = (concat (take k rows) @ rest, length (concat (take k rows)))"
    "k \<le> length rows" "length (concat (take k rows)) < MAX_RESP_LEN"
    "k = length rows \<or> MAX_RESP_LEN \<le> length (concat (take (Suc k) rows))"
    using help_loop_prefix [of 0 "[]" rows] by auto
  obtain row rows' where r: "rows = row # rows'" using fst_fits(1) by (cases rows) auto
  have pos: "0 < k" using k(4) r fst_fits(2) by (cases k) auto
  have "row \<noteq> []" using rows r by (cases table) auto
  then have "0 < length (concat (take k rows))" using r pos by (cases k) auto
  then have "help_text table = butlast (concat (take k rows))"
    by (simp add: help_text_def ws rw k(1) butlast_conv_take)
  then show ?thesis using k(2-4) pos by blast
qed

end
