(* ===== verification/Db.thy ===== *)
theory Db
  imports Command
begin

text \<open>
  \<open>src/db.c\<close>: from a request line to the answer. The line is cut into words, the first
  word selects a handler without regard to case, and the answer goes to the connection
  (server) or to the terminal (local session).
\<close>

text \<open>
  The search reads \<open>cmd_arr[0]\<close> also when the request has no word at all, which is an
  uninitialised pointer. \<open>strtok\<close> cuts the request in place; it is not used again.
\<close>

definition find_command :: "string \<Rightarrow> commandNode option" where
  "find_command w = find (\<lambda>n. strcaseeq (cn_name n) w) commands"

definition processCommand :: "string \<Rightarrow> cmd_ctx option \<Rightarrow> db \<Rightarrow> (err_t \<times> cmd_ctx option \<times> db) option" where
  "processCommand req ctx s =
     (let (ok, s1) = malloc_ok s
      in if \<not> ok then Some (DB_ERR_NOMEM, ctx, s1)
         else do {
           let cmd_arr = tokenize req;
           let argc = length cmd_arr;
           w \<leftarrow> word_at cmd_arr 0;
           case find_command w of
             None \<Rightarrow> Some (answer ctx DB_ERR_CMD_NOTEXIST ''ERR'' s1)
           | Some node \<Rightarrow> do {
               (res, ctx2, s2) \<leftarrow> cn_func node argc cmd_arr ctx s1;
               Some (answer ctx2 res [] s2) } })"

text \<open>
  \<open>CONN_UNKN\<close>, compared with the descriptor, is -1. Neither of the two objects asked for
  is checked.
\<close>

definition handle_request :: "conn_t option \<Rightarrow> string \<Rightarrow> db \<Rightarrow> (err_t \<times> db) option" where
  "handle_request conn req s = do {
     let (ok1, s1) = malloc_ok s;
     guard ok1;
     let def = \<lparr>c_fd = 1, c_type = CONN_UNKN, c_state = STATE_ACTIVE\<rparr>;
     let (ok2, s2) = malloc_ok s1;
     guard ok2;
     let c = (case conn of None \<Rightarrow> def | Some x \<Rightarrow> x);
     (r, ctx, s3) \<leftarrow> processCommand req (Some \<lparr>ctx_conn = c, ctx_resp = [], ctx_status = DB_ERR_OK\<rparr>) s2;
     x \<leftarrow> ctx;
     let res = ctx_status x;
     Some (if c_fd (ctx_conn x) = -1 then (res, send_info_to_user (ctx_resp x) s3)
           else (let (r', s4) = socket_send_data (c_fd (ctx_conn x)) (ctx_resp x @ [LF] @ USER_PROMPT) s3
                 in (res, s4))) }"

definition getAndProcessCommand :: "db \<Rightarrow> (err_t \<times> db) option" where
  "getAndProcessCommand s =
     (let (res, cmd, s1) = get_user_input s
      in if cmd = [] \<or> \<not> c_isalnum (hd cmd) \<or> res \<noteq> 0
         then Some (res, send_info_to_user (BOLD @ RED @ ''Invalid operation requested'' @ RESET) s1)
         else do { (r, ctx, s2) \<leftarrow> processCommand cmd None s1; Some (r, s2) })"

end
