(* ===== verification/Config.thy ===== *)
theory Config
  imports Command
begin

text \<open>
  \<open>src/config.c\<close>: the configuration of a node, read from the arguments of the process and
  from a file, and the table of connections of the server.
\<close>

section \<open>Reading the configuration\<close>

abbreviation (input) QUOTE :: char where "QUOTE \<equiv> CHR 0x27"

definition trim :: "string \<Rightarrow> string" where
  "trim s =
     (let s1 = dropWhile c_isspace s
      in if s1 = [] then [] else rev (dropWhile c_isspace (rev s1)))"

definition init_app_config :: "int \<Rightarrow> int \<Rightarrow> db \<Rightarrow> db" where
  "init_app_config fd_in fd_out s =
     s\<lparr>app_config := \<lparr>input_fd = (if fd_in > 0 then fd_in else 0),
                     output_fd = (if fd_out > 0 then fd_in else 1)\<rparr>\<rparr>"

definition upd_config :: "(server_config \<Rightarrow> server_config) \<Rightarrow> db \<Rightarrow> db" where
  "upd_config f s = s\<lparr>host_config := f (host_config s)\<rparr>"

text \<open>The line split at its first \<open>=\<close>.\<close>

definition split_at :: "char \<Rightarrow> string \<Rightarrow> (string \<times> string) option" where
  "split_at c s = (case strchr s c of None \<Rightarrow> None | Some i \<Rightarrow> Some (take i s, drop (Suc i) s))"

text \<open>
  One line of the file. \<open>resp\<close> is the buffer of the final message (\<open>None\<close> while nothing
  was written to it) and \<open>res\<close> the return code. The new path of the save file points into
  the buffer of the line.
\<close>

definition load_config_line ::
  "string \<Rightarrow> err_t \<times> string option \<times> db \<Rightarrow> (err_t \<times> string option \<times> db) option" where
  "load_config_line line = (\<lambda>(res, resp, s).
     case split_at CHR ''='' line of
       None \<Rightarrow>
         Some (res, resp,
           if strcaseeq line ''ismaster'' then upd_config (\<lambda>c. c\<lparr>is_master_node := True\<rparr>) s else s)
     | Some (l, r) \<Rightarrow>
         (let field = trim l; val = trim r;
              field_resp = ''Field: '' @ [QUOTE] @ field @ [QUOTE] @ '', Value: '' @ [QUOTE] @ val @ [QUOTE]
          in if strcaseeq field ''port'' \<and> atoi val > 0 then
               Some (res, resp, send_info_to_user field_resp (upd_config (\<lambda>c. c\<lparr>server_port := atoi val\<rparr>) s))
             else if strcaseeq field ''savefile'' then
               (if files (sys s) val = None
                then Some (DB_ERR_GENERIC_FAIL, Some (''Unable to access file '' @ val @ '', setting to default''),
                       upd_config (\<lambda>c. c\<lparr>savefile := Path DEFAULT_SAVE_FILE\<rparr>) s)
                else Some (res, resp, send_info_to_user field_resp
                       (upd_config (\<lambda>c. c\<lparr>savefile := Dangling, cfg_rebuild := True\<rparr>) s)))
             else if strcaseeq field ''master'' then
               (let (ok, s1) = malloc_ok s
                in if \<not> ok then Some (DB_ERR_NOMEM, resp, send_info_to_user ''Unable to alloc mem for master'' s1)
                   else case split_at CHR '':'' val of
                     None \<Rightarrow> Some (DB_ERR_INVALID_ARGS, resp,
                       send_info_to_user ''Issue parsing master info, incorrect config'' s1)
                   | Some (name, port) \<Rightarrow>
                       (let (ok2, s2) = malloc_ok s1
                        in if \<not> ok2 then None
                           else Some (res, resp, send_info_to_user field_resp
                             (upd_config (\<lambda>c. c\<lparr>master := Some \<lparr>m_name = name, m_is_conn = False, m_sock = -1,
                                                                m_port = atoi port\<rparr>\<rparr>) s2))))
             else if strcaseeq field ''daemonize'' \<and> strcaseeq val ''yes'' then
               Some (res, resp, send_info_to_user field_resp (upd_config (\<lambda>c. c\<lparr>cfg_daemonize := True\<rparr>) s))
             else Some (res, resp, s)))"

text \<open>
  The lines of the file, at most \<open>MAX_CMD_LEN - 1\<close> bytes at a time, each cut at its first
  line end.
\<close>

function load_config_lines :: "string \<Rightarrow> err_t \<times> string option \<times> db \<Rightarrow> (err_t \<times> string option \<times> db) option" where
  "load_config_lines content st =
     (if content = [] then Some st
      else load_config_line (first_line (fst (fgets MAX_CMD_LEN content))) st \<bind>
        (\<lambda>st1. load_config_lines (snd (fgets MAX_CMD_LEN content)) st1))"
  by pat_completeness auto
termination
  by (relation "measure (\<lambda>(content, st). length content)") (auto simp: fgets_shorter)

declare load_config_lines.simps [simp del]

definition load_server_config :: "db \<Rightarrow> (err_t \<times> db) option" where
  "load_server_config s = do {
     path \<leftarrow> config_file (host_config s);
     case files (sys s) path of
       None \<Rightarrow> do {
         resp \<leftarrow> sprintf_to (MAX_RESP_LEN + slack s) (''Unable to access file '' @ path @ '', setting to default'');
         Some (DB_ERR_GENERIC_FAIL,
           send_info_to_user resp (upd_config (\<lambda>c. c\<lparr>savefile := Path DEFAULT_SAVE_FILE\<rparr>) s)) }
     | Some content \<Rightarrow> do {
         (res, resp, s1) \<leftarrow> load_config_lines content (DB_ERR_OK, None, s);
         s2 \<leftarrow> send_resp resp s1;
         Some (res, s2) } }"

definition CONFIG_PREFIX :: string where "CONFIG_PREFIX = ''--configfile=''"
abbreviation (input) MIN_CONFIG_LEN :: nat where "MIN_CONFIG_LEN \<equiv> 13"

text \<open>
  \<open>--configfile=name\<close>: \<open>strtok\<close> cuts the argument at its first \<open>=\<close> in place; the name is the
  rest, the null pointer when it is empty. What is left of the argument is compared with
  the other options after that.
\<close>

definition config_arg :: "string \<Rightarrow> db \<Rightarrow> (string \<times> db) option" where
  "config_arg a s =
     (if MIN_CONFIG_LEN \<le> length a \<and> take MIN_CONFIG_LEN a = CONFIG_PREFIX then do {
        let fname = drop MIN_CONFIG_LEN a;
        let s1 = upd_config (\<lambda>c. c\<lparr>config_file := (if fname = [] then None else Some fname)\<rparr>) s;
        (r, s2) \<leftarrow> load_server_config s1;
        f \<leftarrow> config_file (host_config s2);
        resp \<leftarrow> sprintf_to (100 + slack s2) (''Config '' @ f @ '', loaded :)'');
        Some (''--configfile'', send_info_to_user resp s2) }
      else Some (a, s))"

definition savefile_arg :: "string \<Rightarrow> err_t \<times> db \<Rightarrow> (err_t \<times> db) option" where
  "savefile_arg b = (\<lambda>(res, s).
     if files (sys s) b = None then do {
       resp \<leftarrow> sprintf_to (100 + slack s) (''Not able to access file '' @ b @ '' :('');
       Some (DB_ERR_GENERIC_FAIL,
         upd_config (\<lambda>c. c\<lparr>savefile := Path DEFAULT_SAVE_FILE\<rparr>) (send_info_to_user resp s)) }
     else Some (res, upd_config (\<lambda>c. c\<lparr>savefile := Path b, cfg_rebuild := True\<rparr>) s))"

text \<open>
  One argument \<open>a\<close>, with the arguments after it. (An option whose value is itself a
  \<open>--configfile=\<close> argument keeps that value here, although the code cuts it one step later.)
\<close>

definition init_arg :: "string \<Rightarrow> string list \<Rightarrow> err_t \<times> db \<Rightarrow> (err_t \<times> db) option" where
  "init_arg arg rest = (\<lambda>(res, s). do {
     (a, s1) \<leftarrow> config_arg arg s;
     let s2 = (if a = ''--port'' \<and> rest \<noteq> [] then upd_config (\<lambda>c. c\<lparr>server_port := atoi (hd rest)\<rparr>) s1 else s1);
     (res', s3) \<leftarrow> (if a = ''--savefile'' \<and> rest \<noteq> [] then savefile_arg (hd rest) (res, s2) else Some (res, s2));
     let s4 = (if a = ''--ismaster'' then upd_config (\<lambda>c. c\<lparr>is_master_node := True\<rparr>) s3 else s3);
     let s5 = (if a = ''--daemonize'' \<and> rest \<noteq> [] \<and> hd rest = ''yes''
               then upd_config (\<lambda>c. c\<lparr>cfg_daemonize := True\<rparr>) s4 else s4);
     Some (res', s5) })"

primrec init_args :: "string list \<Rightarrow> err_t \<times> db \<Rightarrow> (err_t \<times> db) option" where
  "init_args [] st = Some st"
| "init_args (a # rest) st = init_arg a rest st \<bind> init_args rest"

definition init_server_config :: "string list \<Rightarrow> db \<Rightarrow> (err_t \<times> db) option" where
  "init_server_config argv s =
     init_args argv (DB_ERR_OK,
       upd_config (\<lambda>c. c\<lparr>server_log_level := LOG_INFO, server_log_file := None, config_file := None,
                         savefile := Path DEFAULT_SAVE_FILE\<rparr>) s)"

section \<open>The connection table\<close>

definition DEF_CONN_TABLE_SIZE :: nat where "DEF_CONN_TABLE_SIZE = 32"

text \<open>The bytes \<open>calloc\<close> cleared, read as a connection: both enumerations have the value 0.\<close>

definition zero_conn :: conn_t where
  "zero_conn = \<lparr>c_fd = 0, c_type = CONN_USER, c_state = STATE_HANDSHAKE\<rparr>"

definition set_table :: "connection_table \<Rightarrow> db \<Rightarrow> db" where
  "set_table t s = upd_config (\<lambda>c. c\<lparr>connections := Some t\<rparr>) s"

definition conn_table :: "db \<Rightarrow> connection_table option" where
  "conn_table s = connections (host_config s)"

text \<open>\<open>NUM_CONNS\<close>, \<open>CONN(i)\<close> and an assignment to \<open>CONN(i)\<close>\<close>

definition NUM_CONNS :: "db \<Rightarrow> int option" where
  "NUM_CONNS s = map_option ct_len (conn_table s)"

definition CONN :: "nat \<Rightarrow> db \<Rightarrow> conn_t option" where
  "CONN i s = do { t \<leftarrow> conn_table s; guard (i < length (conns t)); conns t ! i }"

definition set_CONN :: "nat \<Rightarrow> conn_t \<Rightarrow> db \<Rightarrow> db option" where
  "set_CONN i c s = do {
     t \<leftarrow> conn_table s;
     guard (i < length (conns t));
     Some (set_table (t\<lparr>conns := (conns t)[i := Some c]\<rparr>) s) }"

definition init_conn_table :: "db \<Rightarrow> err_t \<times> db" where
  "init_conn_table s =
     (let (ok, s1) = malloc_ok s
      in if \<not> ok then (DB_ERR_NOMEM, send_info_to_user ''Failed to allocate memory for connection table'' s1)
         else let (ok2, s2) = malloc_ok s1
           in if \<not> ok2
              then (DB_ERR_NOMEM, send_info_to_user ''Failed to allocate memory for connection table array'' s2)
              else (DB_ERR_OK, send_info_to_user ''Connection table init complete''
                (set_table \<lparr>conns = replicate DEF_CONN_TABLE_SIZE (Some zero_conn), ct_len = 0,
                            ct_cap = int DEF_CONN_TABLE_SIZE\<rparr> s2)))"

text \<open>\<open>CONN_TABLE_LIMIT\<close>; the capacity stays so small that \<open>cap * 8\<close> does not overflow.\<close>

definition CONN_TABLE_LIMIT :: "db \<Rightarrow> bool option" where
  "CONN_TABLE_LIMIT s = map_option (\<lambda>t. ct_len t \<ge> (ct_cap t * 8) div 10) (conn_table s)"

definition double_conn_table :: "db \<Rightarrow> (err_t \<times> db) option" where
  "double_conn_table s = do {
     t \<leftarrow> conn_table s;
     let new_cap = ct_cap t * 2;
     guard (new_cap \<le> int INT_MAX);
     let (ok, s1) = malloc_ok s;
     if \<not> ok then
       Some (DB_ERR_NOMEM, send_info_to_user ''Failed to allocate memory for doubling connection table array'' s1)
     else
       Some (DB_ERR_OK, send_info_to_user ''Connection table size doubled''
         (set_table (t\<lparr>conns := conns t @ replicate (nat new_cap - length (conns t)) None, ct_cap := new_cap\<rparr>) s1)) }"

text \<open>\<open>size_t last = (size_t)len - 1\<close>: for an empty table this is \<open>SIZE_MAX\<close>.\<close>

definition remove_entry_conn_table :: "nat \<Rightarrow> db \<Rightarrow> (err_t \<times> db) option" where
  "remove_entry_conn_table idx s = do {
     t \<leftarrow> conn_table s;
     if int idx \<ge> ct_cap t then
       Some (DB_ERR_INVALID_ARGS, send_info_to_user ''Index > used size : SEG FAULT'' s)
     else do {
       let last = (if ct_len t = 0 then SIZE_MAX else nat (ct_len t - 1));
       s1 \<leftarrow> (if idx \<noteq> last then do { c \<leftarrow> CONN last s; set_CONN idx c s } else Some s);
       t1 \<leftarrow> conn_table s1;
       Some (DB_ERR_OK, send_info_to_user ''Removed entry'' (set_table (t1\<lparr>ct_len := ct_len t1 - 1\<rparr>) s1)) } }"

text \<open>Both objects are freed; the pointer to the table is left dangling, which \<open>None\<close> stands for.\<close>

definition purge_conn_table :: "db \<Rightarrow> (err_t \<times> db) option" where
  "purge_conn_table s = do {
     t \<leftarrow> conn_table s;
     Some (DB_ERR_OK, upd_config (\<lambda>c. c\<lparr>connections := None\<rparr>) s) }"

end
