(* ===== verification/Replication.thy ===== *)
theory Replication
  imports Config
begin

text \<open>
  \<open>src/replication.c\<close>: the signals between a master and its replicas, the handshakes, the
  transfer of the save file, and the list of replicas a master keeps.
\<close>

section \<open>Signals\<close>

definition REPL_JOIN :: string where "REPL_JOIN = ''REPL_JOIN_REQ''"
definition REPL_INIT_JOIN :: string where "REPL_INIT_JOIN = ''REPL_INIT_JOIN''"
definition REPL_JOINED :: string where "REPL_JOINED = ''REPL_JOIN_OK''"
definition REPL_LEAVE :: string where "REPL_LEAVE = ''REPL_LEAVE_REQ''"
definition REPL_LEFT :: string where "REPL_LEFT = ''REPL_LEFT_OK''"
definition USER_JOIN :: string where "USER_JOIN = ''USER_JOIN''"
definition TEMP_SAVE_FILE :: string where "TEMP_SAVE_FILE = ''data.safe.temp''"
definition REPL_VERS :: string where "REPL_VERS = ''0.0.1''"

abbreviation (input) MIN_PORT :: int where "MIN_PORT \<equiv> 3000"
abbreviation (input) MAX_PORT :: int where "MAX_PORT \<equiv> 65535"

text \<open>The enumeration, with the value -1 that the mapper returns for an unknown signal.\<close>

datatype master_repl_comm_request_sig =
  REPL_JOIN_SIG | REPL_INIT_SIG | REPL_JOINED_SIG | REPL_LEAVE_SIG | REPL_LEFT_SIG | UNKNOWN_SIG

definition map_string_to_enum :: "string \<Rightarrow> db \<Rightarrow> master_repl_comm_request_sig \<times> db" where
  "map_string_to_enum sg s =
     (if sg = REPL_JOIN then (REPL_JOIN_SIG, s)
      else if sg = REPL_INIT_JOIN then (REPL_JOINED_SIG, s)
      else if sg = REPL_JOINED then (REPL_JOINED_SIG, s)
      else if sg = REPL_LEAVE then (REPL_LEAVE_SIG, s)
      else if sg = REPL_LEFT then (REPL_LEFT_SIG, s)
      else (UNKNOWN_SIG, emit (StdErr (''Unknown signal: '' @ sg @ [LF])) s))"

definition map_enum_to_string :: "master_repl_comm_request_sig \<Rightarrow> string" where
  "map_enum_to_string sg = (case sg of
      REPL_JOIN_SIG \<Rightarrow> REPL_JOIN
    | REPL_INIT_SIG \<Rightarrow> REPL_INIT_JOIN
    | REPL_JOINED_SIG \<Rightarrow> REPL_JOINED
    | REPL_LEAVE_SIG \<Rightarrow> REPL_LEAVE
    | REPL_LEFT_SIG \<Rightarrow> REPL_LEFT
    | UNKNOWN_SIG \<Rightarrow> ''UNKNOWN_SIGNAL'')"

section \<open>Handshakes\<close>

text \<open>
  \<open>recv(sock, buf, MAX_CMD_LEN, 0)\<close> into a cleared buffer of as many bytes: the count (-1
  for an error) and the C string received. A full buffer has no terminating zero.
\<close>

definition recv_cmd :: "db \<Rightarrow> (int \<times> string) option \<times> db" where
  "recv_cmd s =
     (let (r, s1) = recv_next s
      in case r of
           Received t \<Rightarrow>
             (let bs = take MAX_CMD_LEN t; str = takeWhile (\<lambda>c. c \<noteq> NUL) bs
              in (if length str = MAX_CMD_LEN then None else Some (int (length bs), str), s1))
         | EndOfFile \<Rightarrow> (Some (0, []), s1)
         | Interrupted \<Rightarrow> (Some (-1, []), s1)
         | ReadError \<Rightarrow> (Some (-1, []), s1))"

definition the_master :: "db \<Rightarrow> master_info option" where
  "the_master s = master (host_config s)"

definition set_master :: "master_info \<Rightarrow> db \<Rightarrow> db" where
  "set_master m s = upd_config (\<lambda>c. c\<lparr>master := Some m\<rparr>) s"

text \<open>
  The replica's side. On an error the socket to the master is closed. The address sent is
  \<open>host_config.ip\<close>, which no code sets.
\<close>

definition sig_send_req_to_mas ::
  "master_repl_comm_request_sig \<Rightarrow> master_repl_comm_request_sig \<Rightarrow> db \<Rightarrow> (err_t \<times> db) option" where
  "sig_send_req_to_mas sig_send sig_recv s =
     (let (ok, s1) = malloc_ok s
      in if \<not> ok then Some (DB_ERR_NOMEM, s1)
         else do {
           m \<leftarrow> the_master s1;
           let err_ret = (\<lambda>resp t. (DB_ERR_GENERIC_FAIL,
             send_info_to_user resp (set_master (m\<lparr>m_is_conn := False\<rparr>) (emit (Closed (m_sock m)) t))));
           let (bytes_sent, s2) = send_next (m_sock m) (map_enum_to_string sig_send) s1;
           if bytes_sent < 0 then Some (err_ret ''Unable to send data to Master'' s2)
           else do {
             let s3 = send_info_to_user
               (''Sent to master:'' @ map_enum_to_string sig_send @ '' ['' @ dec_int bytes_sent @ '']'') s2;
             let (r, s4) = recv_cmd s3;
             (bytes_recv, buf) \<leftarrow> r;
             if bytes_recv < 0 then Some (err_ret ''Unable to receive data from Master'' s4)
             else do {
               let s5 = send_info_to_user (''From master:'' @ buf @ '' ['' @ dec_int bytes_recv @ '']'') s4;
               let s6 = send_info_to_user buf s5;
               if strcaseeq buf REPL_INIT_JOIN then do {
                 ip \<leftarrow> cfg_ip (host_config s6);
                 details \<leftarrow> sprintf_to MAX_CMD_LEN (''DETAILS='' @ ip @ '':'' @ dec_int (server_port (host_config s6)));
                 let (b, s7) = send_next (m_sock m) details s6;
                 Some (DB_ERR_OK, s7) }
               else Some (DB_ERR_OK, s6) } } })"

text \<open>
  The master's side. The error path clears \<open>is_conn\<close> of \<open>host_config.master\<close>, which is null
  on a master.
\<close>

definition master_init_handshake_with_repl :: "int \<Rightarrow> db \<Rightarrow> (err_t \<times> db) option" where
  "master_init_handshake_with_repl repl_fd s =
     (let (ok, s1) = malloc_ok s
      in if \<not> ok then Some (DB_ERR_NOMEM, s1)
         else do {
           let err_ret = (\<lambda>resp t. do {
             m \<leftarrow> the_master t;
             Some (DB_ERR_GENERIC_FAIL,
               send_info_to_user resp (set_master (m\<lparr>m_is_conn := False\<rparr>) (emit (Closed repl_fd) t))) });
           let (bytes_sent, s2) = send_next repl_fd REPL_INIT_JOIN s1;
           if bytes_sent < 0 then err_ret ''Unable to send data to potential replica'' s2
           else do {
             let (r, s3) = recv_cmd s2;
             (bytes_recv, buf) \<leftarrow> r;
             if bytes_recv < 0 then err_ret ''Unable to receive data from potential replica'' s3
             else Some (DB_ERR_OK, send_info_to_user (''received '' @ buf @ '' from replica'') s3) } })"

section \<open>Sending the save file\<close>

text \<open>
  The loop \<open>while ((bytes_read = fread(...)) > 0)\<close> over what is left of the file. Of each
  block of \<open>MAX_RESP_LEN\<close> bytes \<open>socket_send_data\<close> sends the bytes before a zero, one less
  than the size of its buffer at most.
\<close>

function send_blocks :: "int \<Rightarrow> string \<Rightarrow> db \<Rightarrow> err_t \<times> db" where
  "send_blocks sockfd content s =
     (if content = [] then (DB_ERR_OK, s)
      else let buffer = take MAX_RESP_LEN content;
               (res, s1) = socket_send_data sockfd (takeWhile (\<lambda>c. c \<noteq> NUL) buffer) s
           in if res \<noteq> DB_ERR_OK then (DB_ERR_GENERIC_FAIL, s1)
              else send_blocks sockfd (drop MAX_RESP_LEN content) s1)"
  by pat_completeness auto
termination
  by (relation "measure (\<lambda>(fd, content, s). length content)") auto

declare send_blocks.simps [simp del]

text \<open>\<open>resp\<close> is written on the two error paths only. A negative \<open>start\<close> makes \<open>fseek\<close> fail.\<close>

definition send_save_file_to_repl :: "int \<Rightarrow> replicaNode \<Rightarrow> int \<Rightarrow> int \<Rightarrow> db \<Rightarrow> (err_t \<times> db) option" where
  "send_save_file_to_repl sockfd repl start file_size s = do {
     path \<leftarrow> path_of (savefile (host_config s));
     case files (sys s) path of
       None \<Rightarrow> Some (DB_ERR_FILE_INACCESSIBLE, send_info_to_user ''Unable to open tmp savefile'' s)
     | Some content \<Rightarrow>
         if start < 0 then Some (DB_ERR_FILE_INACCESSIBLE,
           send_info_to_user (''Unable to move ptr to pos '' @ dec_int start @ '' in tmp savfile'') s)
         else do {
           let (res, s1) = send_blocks sockfd (drop (nat start) content) s;
           s2 \<leftarrow> send_resp None s1;
           Some (res, s2) } }"

definition is_semi :: "char \<Rightarrow> bool" where "is_semi c \<longleftrightarrow> c = CHR '';''"
definition is_eq :: "char \<Rightarrow> bool" where "is_eq c \<longleftrightarrow> c = CHR ''=''"

text \<open>\<open>strtok\<close> with its hidden rest: the token and the new rest, or no token.\<close>

definition next_token :: "(char \<Rightarrow> bool) \<Rightarrow> string \<Rightarrow> string option \<times> string" where
  "next_token delim str = (case strtok_r delim str of None \<Rightarrow> (None, []) | Some (t, r) \<Rightarrow> (Some t, r))"

text \<open>
  The result of the read is overwritten and not looked at; after a failed read \<open>data\<close> was
  never written. \<open>strtok(NULL, ...)\<close> on a missing first part continues behind the token
  before, \<open>strcmp\<close> on a missing part reads a null pointer.
\<close>

definition replica_handshake_ack :: "int \<Rightarrow> replicaNode \<Rightarrow> db \<Rightarrow> (err_t \<times> db) option" where
  "replica_handshake_ack sock repl s = do {
     let (ok, s1) = malloc_ok s;
     guard ok;
     (res, data, s2) \<leftarrow> socket_read_data sock [] (MAX_RESP_LEN - 1) s1;
     guard (res = DB_ERR_OK);
     let (t1, r1) = next_token is_semi data;
     let (t2, r2) = next_token is_semi r1;
     let (t3, r3) = next_token is_semi r2;
     ack \<leftarrow> t3;
     repl_id \<leftarrow> t2;
     if ack \<noteq> ''OK'' then Some (DB_ERR_GENERIC_FAIL, send_info_to_user ''Incomplete ack received from replica'' s2)
     else do {
       let (uuid_key, u) = next_token is_eq repl_id;
       uuid_val \<leftarrow> fst (next_token is_eq u);
       uuid \<leftarrow> r_uuid repl;
       if uuid_val \<noteq> uuid then Some (DB_ERR_GENERIC_FAIL, send_info_to_user ''Replica UUID doesn't match'' s2)
       else Some (DB_ERR_OK, s2) } }"

text \<open>
  The socket is that of \<open>host_config.master\<close>, not one to the replica. In the first case \<open>res\<close>
  stays 0; on success \<open>resp\<close> was never written.
\<close>

definition share_data_with_replica :: "replicaNode \<Rightarrow> bool \<Rightarrow> db \<Rightarrow> (err_t \<times> db) option" where
  "share_data_with_replica repl send_all s = do {
     m \<leftarrow> the_master s;
     let sockfd = m_sock m;
     if sockfd < 0 \<or> sockfd = 0 then Some (DB_ERR_OK, send_info_to_user (''unable to reach replica'' @ [LF]) s)
     else do {
       path \<leftarrow> path_of (savefile (host_config s));
       file_size \<leftarrow> get_file_size path s;
       if file_size < 1 then Some (DB_ERR_GENERIC_FAIL, send_info_to_user ''Nothing in file'' s)
       else do {
         uuid \<leftarrow> cfg_uuid (host_config s);
         let (r, s1) = socket_send_data sockfd
           (''REPL_VERS='' @ REPL_VERS @ '';MASTER_ID='' @ uuid @ '';DB_SIZE='' @ show_zu file_size) s;
         (res, s2) \<leftarrow> replica_handshake_ack sockfd repl s1;
         if res \<noteq> DB_ERR_OK then do {
           ip \<leftarrow> r_ip repl;
           resp \<leftarrow> sprintf_to (MAX_RESP_LEN + slack s2) (''Replica '' @ ip @ '' did not ACK handshake from MASTER'');
           Some (DB_ERR_GENERIC_FAIL, send_info_to_user resp s2) }
         else if send_all then do {
           (res', s3) \<leftarrow> send_save_file_to_repl sockfd repl 0 file_size s2;
           s4 \<leftarrow> send_resp None s3;
           Some (res', s4) }
         else do { s3 \<leftarrow> send_resp None s2; Some (DB_ERR_OK, s3) } } } }"

text \<open>
  \<open>host_config.replicas[i]\<close>: the pointer is to one node of a linked list, so that only the
  index 0 is inside an object.
\<close>

definition replicas_at :: "nat \<Rightarrow> db \<Rightarrow> replicaNode option" where
  "replicas_at i s = do {
     a \<leftarrow> replicas (host_config s);
     guard (i = 0);
     repls (mem s) a }"

primrec share_with_all :: "nat list \<Rightarrow> db \<Rightarrow> db option" where
  "share_with_all [] s = Some s"
| "share_with_all (i # is) s = do {
     repl \<leftarrow> replicas_at i s;
     if (r_hostname repl = None \<and> r_ip repl = None) \<or> r_port repl < MIN_PORT \<or> r_port repl > MAX_PORT then
       share_with_all is s
     else if r_ip repl = None then share_with_all is s
     else do { (r, s1) \<leftarrow> share_data_with_replica repl True s; share_with_all is s1 } }"

text \<open>
  \<open>strcpy(user_savefile, host_config.savefile)\<close> has room for \<open>MAX_CMD_LEN\<close> bytes; the copy is
  not used, so that the temporary path stays.
\<close>

definition replicatate_all :: "db \<Rightarrow> (err_t \<times> db) option" where
  "replicatate_all s =
     (if replicas (host_config s) = None then
        Some (DB_ERR_GENERIC_FAIL, send_info_to_user ''There are no replicas to sync with.'' s)
      else do {
        copied \<leftarrow> (if savefile (host_config s) = Null then Some []
                   else path_of (savefile (host_config s)) \<bind> sprintf_to (MAX_CMD_LEN + slack s));
        let s1 = upd_config (\<lambda>c. c\<lparr>savefile := Path TEMP_SAVE_FILE\<rparr>) s;
        (res, s2) \<leftarrow> fetch_dataset_from_memory (s1\<lparr>SILENT := True\<rparr>);
        let s3 = s2\<lparr>SILENT := False\<rparr>;
        if res = DB_ERR_FILE_INACCESSIBLE then
          Some (res, send_info_to_user ''Unable to access temp savefile, somethings's wrong!!'' s3)
        else if res \<noteq> DB_ERR_OK then do { s4 \<leftarrow> send_resp None s3; Some (res, s4) }
        else do {
          s4 \<leftarrow> share_with_all [0..<nat (num_replicas (host_config s3))] s3;
          s5 \<leftarrow> send_resp None s4;
          Some (res, s5) } })"

section \<open>The list of replicas\<close>

text \<open>
  \<open>add_repl\<close> is a stub: what it should decode from a message is null, so it always stops at
  the first test. The rest of its body, for decoded values, is \<open>append_repl\<close>.
\<close>

definition put_repl :: "addr \<Rightarrow> replicaNode \<Rightarrow> db \<Rightarrow> db" where
  "put_repl a x s = s\<lparr>mem := (mem s)\<lparr>repls := (repls (mem s))(a \<mapsto> x)\<rparr>\<rparr>"

definition new_repl :: "replicaNode \<Rightarrow> db \<Rightarrow> addr \<times> db" where
  "new_repl x s = (nxt (mem s), put_repl (nxt (mem s)) x (s\<lparr>mem := (mem s)\<lparr>nxt := Suc (nxt (mem s))\<rparr>\<rparr>))"

partial_function (option) last_repl :: "(addr \<Rightarrow> replicaNode option) \<Rightarrow> addr \<Rightarrow> addr option" where
  "last_repl st a = st a \<bind> (\<lambda>x. case r_next x of None \<Rightarrow> Some a | Some b \<Rightarrow> last_repl st b)"

definition add_repl_msg ::
  "string option \<Rightarrow> string option \<Rightarrow> string option \<Rightarrow> string option \<Rightarrow> string option \<Rightarrow> db \<Rightarrow> (err_t \<times> db) option" where
  "add_repl_msg master_uuid replica_uuid replica_ip replica_port replica_hname s =
     (case replica_port of
        None \<Rightarrow> Some (DB_ERR_INVALID_ARGS,
          send_info_to_user ''The replica node has shared no port for comms; won't add'' s)
      | Some port \<Rightarrow> do {
          uuid \<leftarrow> cfg_uuid (host_config s);
          mu \<leftarrow> master_uuid;
          if uuid \<noteq> mu then do {
            resp \<leftarrow> sprintf_to (MAX_RESP_LEN + slack s)
              (''The replica node ['' @ mu @ ''] has the wrong master UUID; won't add'');
            Some (DB_ERR_INVALID_ARGS, send_info_to_user resp s) }
          else do {
            let (ok, s1) = malloc_ok s;
            if \<not> ok then Some (DB_ERR_NOMEM, send_info_to_user ''Memory allocation failed for replica node'' s1)
            else do {
              let (a, s2) = new_repl \<lparr>r_ip = replica_ip, r_hostname = replica_hname, r_port = atoi port,
                                      r_uuid = replica_uuid, r_next = None\<rparr> s1;
              if num_replicas (host_config s2) = 0 then
                Some (DB_ERR_OK, send_info_to_user ''Added replica info in Master's memory''
                  (upd_config (\<lambda>c. c\<lparr>replicas := Some a, num_replicas := num_replicas c + 1\<rparr>) s2))
              else do {
                h \<leftarrow> replicas (host_config s2);
                temp \<leftarrow> last_repl (repls (mem s2)) h;
                x \<leftarrow> repls (mem s2) temp;
                Some (DB_ERR_OK, send_info_to_user ''Added replica info in Master's memory''
                  (upd_config (\<lambda>c. c\<lparr>num_replicas := num_replicas c + 1\<rparr>)
                    (put_repl temp (x\<lparr>r_next := Some a\<rparr>) s2))) } } } })"

definition add_repl :: "db \<Rightarrow> (err_t \<times> db) option" where
  "add_repl s = add_repl_msg None None None None None s"

text \<open>
  \<open>remove_repl\<close>, likewise with its undecoded argument as a parameter. A node that is taken
  out is freed together with the node after it.
\<close>

partial_function (option) find_repl_prev ::
  "(addr \<Rightarrow> replicaNode option) \<Rightarrow> addr \<Rightarrow> string \<Rightarrow> (addr \<times> addr) option option" where
  "find_repl_prev st temp uuid =
     st temp \<bind> (\<lambda>x. case r_next x of
        None \<Rightarrow> Some None
      | Some b \<Rightarrow> st b \<bind> (\<lambda>y. r_uuid y \<bind> (\<lambda>u.
          if u = uuid then Some (Some (temp, b)) else find_repl_prev st b uuid)))"

definition free_repl :: "addr \<Rightarrow> replicaNode \<Rightarrow> db \<Rightarrow> db" where
  "free_repl a x s =
     (let st = (repls (mem s))(a := None);
          st' = (case r_next x of None \<Rightarrow> st | Some b \<Rightarrow> st(b := None))
      in upd_config (\<lambda>c. c\<lparr>num_replicas := num_replicas c - 1\<rparr>) (s\<lparr>mem := (mem s)\<lparr>repls := st'\<rparr>\<rparr>))"

definition remove_repl_msg :: "string option \<Rightarrow> db \<Rightarrow> (err_t \<times> db) option" where
  "remove_repl_msg replica_uuid s =
     (if num_replicas (host_config s) = 0 then
        Some (DB_ERR_GENERIC_FAIL,
          send_info_to_user ''There is no replica information with the master, skipping check'' s)
      else do {
        h \<leftarrow> replicas (host_config s);
        x \<leftarrow> repls (mem s) h;
        u \<leftarrow> r_uuid x;
        uuid \<leftarrow> replica_uuid;
        (removal, s1) \<leftarrow>
          (if u = uuid then Some (Some h, upd_config (\<lambda>c. c\<lparr>replicas := r_next x\<rparr>) s)
           else do {
             p \<leftarrow> find_repl_prev (repls (mem s)) h uuid;
             case p of
               None \<Rightarrow> Some (None, s)
             | Some (temp, b) \<Rightarrow> do {
                 t \<leftarrow> repls (mem s) temp;
                 y \<leftarrow> repls (mem s) b;
                 Some (Some b, put_repl temp (t\<lparr>r_next := r_next y\<rparr>) s) } });
        case removal of
          None \<Rightarrow> do {
            resp \<leftarrow> sprintf_to (MAX_RESP_LEN + slack s1) (''No replica with ID ['' @ uuid @ ''], in master's memory'');
            Some (DB_ERR_GENERIC_FAIL, send_info_to_user resp s1) }
        | Some a \<Rightarrow> do {
            y \<leftarrow> repls (mem s1) a;
            resp \<leftarrow> sprintf_to (MAX_RESP_LEN + slack s1) (''Removed ['' @ uuid @ ''], from master's memory'');
            Some (DB_ERR_OK, send_info_to_user resp (free_repl a y s1)) } })"

definition remove_repl :: "db \<Rightarrow> (err_t \<times> db) option" where
  "remove_repl s = remove_repl_msg None s"

section \<open>Joining a master\<close>

text \<open>
  \<open>gethostbyname\<close>, \<open>socket\<close> and \<open>connect\<close>. On success \<open>resp\<close> was never written, and \<open>is_conn\<close>
  is not set.
\<close>

definition initialise_conn_with_master :: "db \<Rightarrow> (err_t \<times> db) option" where
  "initialise_conn_with_master s = do {
     m \<leftarrow> the_master s;
     let (host, s1) = call_next s;
     if host < 0 then do {
       resp \<leftarrow> sprintf_to (MAX_RESP_LEN + slack s1) (''Unable to fecth IP of host '' @ m_name m);
       Some (DB_ERR_GENERIC_FAIL, send_info_to_user resp s1) }
     else do {
       let (sockfd, s2) = call_next s1;
       if sockfd < 0 then Some (DB_ERR_GENERIC_FAIL, send_info_to_user ''Could not create socket'' s2)
       else do {
         let (r, s3) = call_next s2;
         if r < 0 then
           Some (DB_ERR_GENERIC_FAIL, send_info_to_user ''Unable to connect to Master'' (emit (Closed sockfd) s3))
         else do {
           (res, s4) \<leftarrow> sig_send_req_to_mas REPL_JOIN_SIG REPL_JOINED_SIG (set_master (m\<lparr>m_sock := sockfd\<rparr>) s3);
           s5 \<leftarrow> send_resp None s4;
           Some (DB_ERR_OK, s5) } } } }"

end
