(* ===== verification/Network.thy ===== *)
theory Network
  imports Db Replication
begin

text \<open>
  \<open>network/c/network.c\<close>: the server, a loop around \<open>select\<close> over the listening socket and the
  connections of the table; the local session; and \<open>main\<close>.
\<close>

section \<open>One round of the server\<close>

abbreviation (input) FD_SETSIZE :: int where "FD_SETSIZE \<equiv> 1024"

text \<open>\<open>FD_SET\<close> and \<open>FD_ISSET\<close> are defined for descriptors below \<open>FD_SETSIZE\<close>.\<close>

definition fd_ok :: "int \<Rightarrow> bool" where
  "fd_ok fd \<longleftrightarrow> 0 \<le> fd \<and> fd < FD_SETSIZE"

text \<open>The descriptors of the connections to watch.\<close>

primrec watch_conns :: "nat list \<Rightarrow> db \<Rightarrow> int list option" where
  "watch_conns [] s = Some []"
| "watch_conns (i # is) s = do {
     c \<leftarrow> CONN i s;
     if c_fd c \<noteq> -1 then do {
       guard (fd_ok (c_fd c));
       fds \<leftarrow> watch_conns is s;
       Some (c_fd c # fds) }
     else watch_conns is s }"

text \<open>A new connection is written to the cell \<open>NUM_CONNS\<close>, whatever \<open>accept\<close> returned.\<close>

definition accept_conn :: "db \<Rightarrow> db option" where
  "accept_conn s = do {
     let (client_fd, s1) = call_next s;
     n \<leftarrow> NUM_CONNS s1;
     s2 \<leftarrow> set_CONN (nat n) \<lparr>c_fd = client_fd, c_type = CONN_UNKN, c_state = STATE_HANDSHAKE\<rparr> s1;
     t \<leftarrow> conn_table s2;
     Some (set_table (t\<lparr>ct_len := ct_len t + 1\<rparr>) s2) }"

definition close_conn :: "nat \<Rightarrow> db \<Rightarrow> db option" where
  "close_conn i s = do {
     c \<leftarrow> CONN i s;
     set_CONN i (c\<lparr>c_fd := -1\<rparr>) (emit (Closed (c_fd c)) s) }"

text \<open>The first line of a connection says who is there.\<close>

definition conn_handshake :: "nat \<Rightarrow> string \<Rightarrow> db \<Rightarrow> db option" where
  "conn_handshake i buf s = do {
     c \<leftarrow> CONN i s;
     if buf = USER_JOIN then do {
       s1 \<leftarrow> set_CONN i (c\<lparr>c_type := CONN_USER, c_state := STATE_ACTIVE\<rparr>) s;
       let (r, s2) = send_next (c_fd c) USER_PROMPT s1;
       Some s2 }
     else if buf = REPL_JOIN then do {
       s1 \<leftarrow> set_CONN i (c\<lparr>c_type := CONN_REPL, c_state := STATE_ACTIVE\<rparr>) s;
       (r, s2) \<leftarrow> master_init_handshake_with_repl (c_fd c) s1;
       Some s2 }
     else close_conn i s }"

text \<open>A request of an active user. The result says whether the server has to shut down.\<close>

definition conn_active :: "nat \<Rightarrow> string \<Rightarrow> db \<Rightarrow> (bool \<times> db) option" where
  "conn_active i buf s = do {
     c \<leftarrow> CONN i s;
     if c_type c = CONN_USER \<and> c_fd c > 0 then do {
       (res, s1) \<leftarrow> (if buf \<noteq> [] then handle_request (Some c) buf s else Some (DB_ERR_OK, s));
       if res = DB_ERR_EXIT then do { s2 \<leftarrow> close_conn i s1; Some (False, s2) }
       else Some (res = DB_ERR_SHUTDOWN, s1) }
     else Some (False, s) }"

definition serve_conn :: "int list \<Rightarrow> nat \<Rightarrow> db \<Rightarrow> (bool \<times> db) option" where
  "serve_conn readfds i s = do {
     c \<leftarrow> CONN i s;
     if c_fd c = -1 then Some (False, s)
     else do {
       guard (fd_ok (c_fd c));
       if c_fd c \<notin> set readfds then Some (False, s)
       else do {
         let (ok, s1) = malloc_ok s;
         guard ok;
         (r, buf, s2) \<leftarrow> socket_read_data (c_fd c) [] (MAX_CMD_LEN - 1) s1;
         if r = DB_ERR_CLIENT_CLOSED \<or> r = DB_ERR_CLIENT_FATAL then do {
           s3 \<leftarrow> close_conn i s2;
           Some (False, s3) }
         else if c_state c = STATE_HANDSHAKE then do {
           s3 \<leftarrow> conn_handshake i buf s2;
           Some (False, s3) }
         else conn_active i buf s2 } } }"

text \<open>The pass over the existing connections stops at a request to shut down.\<close>

primrec serve_conns :: "int list \<Rightarrow> nat list \<Rightarrow> db \<Rightarrow> (bool \<times> db) option" where
  "serve_conns readfds [] s = Some (False, s)"
| "serve_conns readfds (i # is) s = do {
     (stop, s1) \<leftarrow> serve_conn readfds i s;
     if stop then Some (True, s1) else serve_conns readfds is s1 }"

text \<open>
  One round of \<open>while (1)\<close>. The test \<open>if (errno = EINTR)\<close> is an assignment, so that every
  error of \<open>select\<close> ends the loop. \<open>FD_ISSET\<close> holds for descriptors that were watched and are
  ready.
\<close>

definition server_round :: "int \<Rightarrow> db \<Rightarrow> (bool \<times> db) option" where
  "server_round server_fd s = do {
     guard (fd_ok server_fd);
     n \<leftarrow> NUM_CONNS s;
     fds \<leftarrow> watch_conns [0..<nat n] s;
     let ((r, ready), s1) = select_next s;
     if r < 0 then Some (True, send_info_to_user ''SELECT syscall got interrupted'' s1)
     else do {
       let readfds = filter (\<lambda>fd. fd \<in> set ready) (server_fd # fds);
       s2 \<leftarrow> (if server_fd \<in> set readfds then accept_conn s1 else Some s1);
       m \<leftarrow> NUM_CONNS s2;
       serve_conns readfds [0..<nat m] s2 } }"

partial_function (option) server_loop :: "int \<Rightarrow> db \<Rightarrow> db option" where
  "server_loop server_fd s =
     server_round server_fd s \<bind> (\<lambda>(stop, s1). if stop then Some s1 else server_loop server_fd s1)"

text \<open>
  \<open>run_as_server\<close>; the result is the code given to \<open>exit\<close>, if the process ends there.
\<close>

definition run_as_server :: "db \<Rightarrow> (int option \<times> db) option" where
  "run_as_server s =
     (let (server_fd, s1) = call_next s
      in if server_fd < 0 then
           Some (Some DB_ERR_GENERIC_FAIL, send_info_to_user ''Unable to provide socket for running the server'' s1)
         else let (b, s2) = call_next s1
           in if b < 0 then
                Some (Some DB_ERR_GENERIC_FAIL, emit (Closed server_fd)
                  (send_info_to_user ''Unable to bind socket for running the server'' s2))
              else let (l, s3) = call_next s2
                in if l < 0 then
                     Some (Some DB_ERR_GENERIC_FAIL, emit (Closed server_fd)
                       (send_info_to_user ''Unable to listen on the socket'' s3))
                   else let (r, s4) = init_conn_table (send_info_to_user ''Server started'' s3)
                     in if r \<noteq> DB_ERR_OK then Some (None, s4)
                        else do {
                          s5 \<leftarrow> server_loop server_fd s4;
                          (p, s6) \<leftarrow> purge_conn_table s5;
                          Some (None, emit (Closed server_fd) s6) })"

section \<open>The local session and main\<close>

partial_function (option) event_loop_from :: "err_t \<Rightarrow> db \<Rightarrow> db option" where
  "event_loop_from res s =
     (if res \<noteq> DB_ERR_EXIT then getAndProcessCommand s \<bind> (\<lambda>(r, s1). event_loop_from r s1) else Some s)"

definition eventLoop :: "db \<Rightarrow> db option" where
  "eventLoop s = event_loop_from DB_ERR_OK s"

text \<open>
  \<open>daemonize\<close>: the parent exits, the child continues with its terminal on \<open>/dev/null\<close>. The
  result says whether this process goes on.
\<close>

definition daemonize :: "db \<Rightarrow> bool \<times> db" where
  "daemonize s =
     (let (pid, s1) = call_next s
      in if pid \<noteq> 0 then (False, s1)
         else let (fd, s2) = call_next (emit SetSid s1)
           in if fd \<noteq> -1 then
                (True, (if fd > 2 then emit (Closed fd) else id)
                  (emit (Dup2 fd 2) (emit (Dup2 fd 1) (emit (Dup2 fd 0) s2))))
              else (True, s2))"

text \<open>The part of \<open>main\<close> after the start: rebuild, join the master, serve.\<close>

definition main_serve :: "db \<Rightarrow> (int \<times> db) option" where
  "main_serve s = do {
     s1 \<leftarrow> (if cfg_rebuild (host_config s) then do {
              (r, s') \<leftarrow> rebuild_from_savefile s;
              Some (upd_config (\<lambda>c. c\<lparr>cfg_rebuild := False\<rparr>) s') }
            else Some s);
     (stop, s2) \<leftarrow>
       (case the_master s1 of
          Some m \<Rightarrow>
            if \<not> m_is_conn m then do {
              (temp, s') \<leftarrow> initialise_conn_with_master s1;
              if temp \<noteq> DB_ERR_OK then Some (Some temp, send_info_to_user ''Failed to conn with master'' s')
              else Some (None, if server_port (host_config s') = 0
                               then upd_config (\<lambda>c. c\<lparr>server_port := 5050\<rparr>) s' else s') }
            else Some (None, s1)
        | None \<Rightarrow> Some (None, s1));
     case stop of
       Some r \<Rightarrow> Some (r, s2)
     | None \<Rightarrow>
         if server_port (host_config s2) > 0 then do {
           (ex, s3) \<leftarrow> run_as_server s2;
           Some (case ex of None \<Rightarrow> (0, s3) | Some r \<Rightarrow> (r, s3)) }
         else do { s3 \<leftarrow> eventLoop s2; Some (0, s3) } }"

definition main_server :: "string list \<Rightarrow> db \<Rightarrow> (int \<times> db) option" where
  "main_server argv s = do {
     (r, s1) \<leftarrow> init_server_config argv s;
     (have_ht, s2) \<leftarrow> ht_init s1;
     s3 \<leftarrow> ttl_init s2;
     if \<not> have_ht then Some (-1, s3)
     else if cfg_daemonize (host_config s3) then
       (if server_port (host_config s3) = 0 then
          Some (DB_ERR_INVALID_ARGS,
            send_info_to_user (RED @ BOLD @ ''Daemonzation in non-server mode not allowed'' @ RESET) s3)
        else let (child, s4) = daemonize s3 in if child then main_serve s4 else Some (0, s4))
     else main_serve s3 }"

end
