(* ===== verification/Network_Proof.thy ===== *)
theory Network_Proof
  imports Network
begin

text \<open>
  The server as a state machine: requests leave the connection table alone, a round keeps
  its invariant, and the life of a connection. The rounds of a run are a step relation.
\<close>

section \<open>Requests do not touch the configuration\<close>

text \<open>
  What no request changes: the configuration (the connection table is a part of it), the clock,
  the input of the process and the padding of buffers.
\<close>

definition fixed :: "db \<Rightarrow> server_config \<times> (nat \<Rightarrow> int) \<times> (nat \<Rightarrow> recv_result) \<times> nat" where
  "fixed s = (host_config s, clock (sys s), recv_res (sys s), slack s)"

lemma fixed_eq: "fixed s' = fixed s \<longleftrightarrow> host_config s' = host_config s \<and> clock (sys s') = clock (sys s) \<and>
    recv_res (sys s') = recv_res (sys s) \<and> slack s' = slack s"
  by (simp add: fixed_def)

lemma fixed_simps [simp]:
  "fixed (s\<lparr>mem := m\<rparr>) = fixed s" "fixed (s\<lparr>ht := h\<rparr>) = fixed s" "fixed (s\<lparr>ttl := t\<rparr>) = fixed s"
  "fixed (s\<lparr>SILENT := b\<rparr>) = fixed s" "fixed (tick s) = fixed s" "fixed (emit e s) = fixed s"
  "fixed (send_info_to_user d s) = fixed s" "fixed (s\<lparr>sys := (sys s)\<lparr>files := fs\<rparr>\<rparr>) = fixed s"
  "fixed (s\<lparr>sys := (sys s)\<lparr>n_send := k\<rparr>\<rparr>) = fixed s" "fixed (s\<lparr>sys := (sys s)\<lparr>n_recv := k\<rparr>\<rparr>) = fixed s"
  by (simp_all add: fixed_def tick_def emit_def send_info_to_user_def Let_def)

text \<open>What is more, a request up to its answer reads nothing from a socket and sends nothing.\<close>

fun is_sent :: "io_event \<Rightarrow> bool" where
  "is_sent (Sent fd x) = True"
| "is_sent _ = False"

definition sents :: "db \<Rightarrow> io_event list" where
  "sents s = filter is_sent (io (sys s))"

definition quiet :: "db \<Rightarrow> (server_config \<times> (nat \<Rightarrow> int) \<times> (nat \<Rightarrow> recv_result) \<times> nat) \<times> nat \<times> io_event list" where
  "quiet s = (fixed s, n_recv (sys s), sents s)"

lemma quiet_eq: "quiet s' = quiet s \<longleftrightarrow> fixed s' = fixed s \<and> n_recv (sys s') = n_recv (sys s) \<and> sents s' = sents s"
  by (simp add: quiet_def)

lemma sents_emit [simp]: "sents (emit e s) = sents s @ (if is_sent e then [e] else [])"
  by (simp add: sents_def emit_def)

lemma sents_simps [simp]: "sents (send_info_to_user d s) = sents s" "sents (tick s) = sents s"
  "sents (set_table t s) = sents s"
  by (simp_all add: sents_def send_info_to_user_def emit_def tick_def set_table_def upd_config_def Let_def)

lemma quiet_simps [simp]:
  "quiet (s\<lparr>mem := m\<rparr>) = quiet s" "quiet (s\<lparr>ht := h\<rparr>) = quiet s" "quiet (s\<lparr>ttl := t\<rparr>) = quiet s"
  "quiet (s\<lparr>SILENT := b\<rparr>) = quiet s" "quiet (tick s) = quiet s" "\<not> is_sent e \<Longrightarrow> quiet (emit e s) = quiet s"
  "quiet (send_info_to_user d s) = quiet s" "quiet (s\<lparr>sys := (sys s)\<lparr>files := fs\<rparr>\<rparr>) = quiet s"
  by (simp_all add: quiet_def fixed_def sents_def tick_def emit_def send_info_to_user_def Let_def)

lemma update_hc [simp]:
  "quiet (set_bucket s i p) = quiet s" "quiet (set_count s n) = quiet s"
  "quiet (put_ent s a e) = quiet s" "quiet (write_file q x s) = quiet s"
  by (simp_all add: set_bucket_def set_count_def put_ent_def write_file_def)

lemma fill_hc: "fill_cmd_ctx c r d s = (c', s') \<Longrightarrow> quiet s' = quiet s"
  by (auto simp: fill_cmd_ctx_def split: if_splits option.splits)

lemma answer_hc: "answer c r d s = (r', c', s') \<Longrightarrow> quiet s' = quiet s"
  using fill_hc [of c r d s] by (auto simp: answer_def split: prod.splits)

lemma malloc_hc: "malloc_ok s = (b, s') \<Longrightarrow> quiet s' = quiet s"
  by (auto simp: malloc_ok_def alloc_def)

lemma time_hc: "time_NULL s = (t, s') \<Longrightarrow> quiet s' = quiet s"
  by (auto simp: time_NULL_def)

lemmas hc_dest = fill_hc answer_hc malloc_hc time_hc

lemma hash_delete_hc: "hash_delete k ctx s = Some (r, c', s') \<Longrightarrow> quiet s' = quiet s"
  by (auto simp: hash_delete_def bind_Some_iff Let_def split: option.splits if_splits prod.splits dest!: hc_dest)

lemma lazy_hc: "lazy_expire_and_delete a s = Some (r, s') \<Longrightarrow> quiet s' = quiet s"
  by (auto simp: lazy_expire_and_delete_def time_NULL_def bind_Some_iff Let_def split: if_splits prod.splits dest!: hc_dest hash_delete_hc)

lemma find_live_hc: "find_live k s = Some (p, s') \<Longrightarrow> quiet s' = quiet s"
  by (auto simp: find_live_def bind_Some_iff split: option.splits if_splits dest!: lazy_hc)

lemma hash_get_kv_hc: "hash_get_kv k s = Some (p, s') \<Longrightarrow> quiet s' = quiet s"
  by (auto simp: hash_get_kv_def bind_Some_iff split: option.splits dest!: lazy_hc)

lemma hash_get_hc: "hash_get k ctx s = Some (r, c', s') \<Longrightarrow> quiet s' = quiet s"
  by (auto simp: hash_get_def bind_Some_iff split: option.splits prod.splits dest!: find_live_hc hc_dest)

lemma hash_get_expiry_hc: "hash_get_expiry k ctx s = Some (r, c', s') \<Longrightarrow> quiet s' = quiet s"
  by (auto simp: hash_get_expiry_def bind_Some_iff split: option.splits prod.splits dest!: find_live_hc hc_dest)

lemma hash_exists_hc: "hash_exists k ctx s = Some (r, c', s') \<Longrightarrow> quiet s' = quiet s"
  by (auto simp: hash_exists_def bind_Some_iff Let_def split: option.splits prod.splits dest!: find_live_hc hc_dest)

lemma replace_value_hc: "replace_value a v s = Some s' \<Longrightarrow> quiet s' = quiet s"
  by (auto simp: replace_value_def malloc_ok_def alloc_def bind_Some_iff split: if_splits)

lemma add_kv_hc: "add_kv_in_arr i e s = Some (r, s') \<Longrightarrow> quiet s' = quiet s"
  by (auto simp: add_kv_in_arr_def bind_Some_iff Let_def split: option.splits if_splits dest!: replace_value_hc)

lemma hash_insert_hc: "hash_insert k v ctx s = Some (r, c', s') \<Longrightarrow> quiet s' = quiet s"
  by (auto simp: hash_insert_def bind_Some_iff Let_def split: if_splits prod.splits dest!: add_kv_hc hc_dest)

lemma hash_update_expiry_hc: "hash_update_expiry k d ctx s = Some (r, c', s') \<Longrightarrow> quiet s' = quiet s"
  by (auto simp: hash_update_expiry_def time_NULL_def bind_Some_iff Let_def split: option.splits if_splits prod.splits
      dest!: hash_get_kv_hc hc_dest)

lemma get_kv_from_bucket_hc: "get_kv_from_bucket p s = Some (d, s') \<Longrightarrow> quiet s' = quiet s"
  by (auto simp: get_kv_from_bucket_def malloc_ok_def alloc_def bind_Some_iff split: option.splits if_splits)

lemma save_buckets_hc: "save_buckets is x s = Some (y, s') \<Longrightarrow> quiet s' = quiet s"
proof (induction "is" arbitrary: x s)
  case (Cons i "is")
  then show ?case using get_kv_from_bucket_hc by (fastforce simp: bind_Some_iff)
qed simp

lemma fetch_hc: "fetch_dataset_from_memory s = Some (r, s') \<Longrightarrow> quiet s' = quiet s"
  by (auto simp: fetch_dataset_from_memory_def bind_Some_iff split: if_splits dest!: save_buckets_hc)

lemma printSub_hc: "printSubCommands w s = Some s' \<Longrightarrow> quiet s' = quiet s"
  unfolding printSubCommands_def by (clarsimp simp only: bind_Some_iff Let_def option.inject prod.inject quiet_simps)

text \<open>No handler, and so no request up to its answer, changes it.\<close>

definition keeps_config :: "handler \<Rightarrow> bool" where
  "keeps_config f \<longleftrightarrow> (\<forall>n ws ctx s r c' s'. f n ws ctx s = Some (r, c', s') \<longrightarrow> quiet s' = quiet s)"

lemma handlers_keep: "f \<in> set command_funcs \<Longrightarrow> keeps_config f"
proof -
  have "keeps_config set_key_val_helper"
    by (auto simp: keeps_config_def set_key_val_helper_def bind_Some_iff split: if_splits dest!: hash_insert_hc hc_dest)
  moreover have "keeps_config get_val_from_key_helper"
    by (auto simp: keeps_config_def get_val_from_key_helper_def bind_Some_iff split: if_splits
        dest!: hash_get_hc hash_get_expiry_hc hc_dest)
  moreover have "keeps_config exists_helper"
    by (auto simp: keeps_config_def exists_helper_def bind_Some_iff Let_def split: if_splits dest!: hash_exists_hc hc_dest)
  moreover have "keeps_config delete_key_value_helper"
    by (auto simp: keeps_config_def delete_key_value_helper_def bind_Some_iff split: if_splits dest!: hash_delete_hc hc_dest)
  moreover have "keeps_config expire_key_val"
    by (auto simp: keeps_config_def expire_key_val_def bind_Some_iff Let_def split: if_splits
        dest!: hash_exists_hc hash_update_expiry_hc hc_dest)
  moreover have "keeps_config save_helper"
    by (auto simp: keeps_config_def save_helper_def bind_Some_iff split: if_splits dest!: fetch_hc hc_dest)
  moreover have "keeps_config exit_helper" "keeps_config shutdown_helper"
    by (auto simp: keeps_config_def exit_helper_def shutdown_helper_def split: if_splits dest!: hc_dest)
  moreover have "keeps_config help_helper"
    unfolding keeps_config_def
  proof (intro allI impI)
    fix n ws ctx s r c' s' assume run: "help_helper n ws ctx s = Some (r, c', s')"
    have a: "quiet (snd (snd (answer ctx DB_ERR_HELP (help_text usages) s))) = quiet s"
      using answer_hc [of ctx DB_ERR_HELP "help_text usages" s] by (metis prod.collapse)
    consider "n = 1" | "n = 2" | "n \<noteq> 1" "n \<noteq> 2" by blast
    then show "quiet s' = quiet s"
    proof cases
      case 1
      then show ?thesis using run a by (simp add: help_helper_def help_cmd_def case_prod_unfold Let_def)
    next
      case 2
      then show ?thesis using run
        by (auto simp: help_helper_def bind_Some_iff split: if_splits dest!: printSub_hc)
    next
      case 3
      then show ?thesis using run by (simp add: help_helper_def)
    qed
  qed
  ultimately have "list_all keeps_config command_funcs" unfolding command_funcs_def by (simp only: list.pred_inject)
  then show "f \<in> set command_funcs \<Longrightarrow> keeps_config f" by (simp add: list_all_iff)
qed

lemma find_command_keeps: "find_command w = Some node \<Longrightarrow> keeps_config (cn_func node)"
proof -
  assume "find_command w = Some node"
  then have "node \<in> set commands" by (auto simp: find_command_def find_Some_iff)
  then have "cn_func node \<in> set (map cn_func commands)" by simp
  then have "cn_func node \<in> set command_funcs" unfolding command_handlers .
  then show ?thesis by (rule handlers_keep)
qed

lemma processCommand_hc:
  assumes "processCommand req ctx s = Some (r, c', s')"
  shows "quiet s' = quiet s"
proof -
  obtain ok s1 where m: "malloc_ok s = (ok, s1)" by fastforce
  have hc: "quiet s1 = quiet s" using malloc_hc [OF m] .
  show ?thesis
  proof (cases ok)
    case False
    then show ?thesis using assms m hc by (simp add: processCommand_def)
  next
    case True
    then obtain w where w: "word_at (tokenize req) 0 = Some w"
      using assms m by (auto simp: processCommand_def Let_def bind_Some_iff)
    show ?thesis
    proof (cases "find_command w")
      case None
      then show ?thesis using assms m True w hc answer_hc by (auto simp: processCommand_def Let_def)
    next
      case (Some node)
      then have "cn_func node (length (tokenize req)) (tokenize req) ctx s1 = Some (r, c', s')"
        using assms m True w by (auto simp: processCommand_def Let_def bind_Some_iff)
      then show ?thesis using find_command_keeps [OF Some] hc unfolding keeps_config_def by metis
    qed
  qed
qed

lemma send_next_hc: "send_next fd x s = (r, s') \<Longrightarrow> fixed s' = fixed s"
  by (auto simp: send_next_def)

lemma socket_send_hc [simp]: "fixed (snd (socket_send_data fd x s)) = fixed s"
  by (auto simp: socket_send_data_def send_next_def Let_def)

lemma handle_request_hc:
  assumes "handle_request conn req s = Some (r, s')"
  shows "fixed s' = fixed s"
proof -
  obtain b1 s1 b2 s2 where m: "malloc_ok s = (b1, s1)" "malloc_ok s1 = (b2, s2)" by fastforce
  then have hc: "quiet s2 = quiet s" using malloc_hc by metis
  have b: "b1" "b2" using assms m by (auto simp: handle_request_def bind_Some_iff split: if_splits)
  obtain r0 c s3 where p: "processCommand req (Some \<lparr>ctx_conn = (case conn of None \<Rightarrow>
      \<lparr>c_fd = 1, c_type = CONN_UNKN, c_state = STATE_ACTIVE\<rparr> | Some x \<Rightarrow> x), ctx_resp = [], ctx_status = DB_ERR_OK\<rparr>) s2 = Some (r0, Some c, s3)"
    "s' = s3 \<or> s' = send_info_to_user (ctx_resp c) s3 \<or>
      s' = snd (socket_send_data (c_fd (ctx_conn c)) (ctx_resp c @ [LF] @ USER_PROMPT) s3)"
    using assms m b by (auto simp: handle_request_def bind_Some_iff Let_def split: if_splits prod.splits)
  then show ?thesis using processCommand_hc [OF p(1)] hc by (auto simp: quiet_eq)
qed

section \<open>The connection table\<close>

text \<open>
  A connection in the table waits for its greeting and has no type yet, or is active as a
  user or a replica; its descriptor is -1 once it is closed.
\<close>

definition conn_fine :: "conn_t \<Rightarrow> bool" where
  "conn_fine c \<longleftrightarrow> (c_state c = STATE_HANDSHAKE \<and> c_type c = CONN_UNKN) \<or>
     (c_state c = STATE_ACTIVE \<and> c_type c \<noteq> CONN_UNKN)"

definition table_fine :: "connection_table \<Rightarrow> bool" where
  "table_fine t \<longleftrightarrow> length (conns t) = DEF_CONN_TABLE_SIZE \<and> ct_cap t = int DEF_CONN_TABLE_SIZE \<and>
     0 \<le> ct_len t \<and> ct_len t \<le> ct_cap t \<and> (\<forall>i<nat (ct_len t). \<exists>c. conns t ! i = Some c \<and> conn_fine c)"

definition table_inv :: "db \<Rightarrow> bool" where
  "table_inv s \<longleftrightarrow> (\<exists>t. conn_table s = Some t \<and> table_fine t)"

definition conn_len :: "db \<Rightarrow> nat" where
  "conn_len s = (case conn_table s of None \<Rightarrow> 0 | Some t \<Rightarrow> nat (ct_len t))"

lemma table_cong:
  assumes "conn_table s' = conn_table s"
  shows "table_inv s' = table_inv s" "conn_len s' = conn_len s" "CONN i s' = CONN i s" "NUM_CONNS s' = NUM_CONNS s"
  using assms by (simp_all add: table_inv_def conn_len_def CONN_def NUM_CONNS_def)

lemma conn_table_hc: "host_config s' = host_config s \<Longrightarrow> conn_table s' = conn_table s"
  by (simp add: conn_table_def)

lemma conn_table_simps [simp]:
  "conn_table (emit e s) = conn_table s" "conn_table (send_info_to_user d s) = conn_table s"
  "conn_table (set_table t s) = Some t" "conn_table (set_master m s) = conn_table s"
  "conn_table (s\<lparr>mem := m'\<rparr>) = conn_table s" "conn_table (s\<lparr>sys := o'\<rparr>) = conn_table s"
  by (simp_all add: conn_table_def set_table_def set_master_def upd_config_def)

lemma table_invD: "table_inv s \<Longrightarrow> i < conn_len s \<Longrightarrow> \<exists>c. CONN i s = Some c \<and> conn_fine c"
  by (auto simp: table_inv_def conn_len_def table_fine_def CONN_def)

lemma set_CONN_keeps:
  assumes "set_CONN i c s = Some s'" "table_inv s" "conn_fine c"
  shows "table_inv s'" "conn_len s' = conn_len s" "CONN j s' = (if j = i then Some c else CONN j s)"
proof -
  obtain t where t: "conn_table s = Some t" "table_fine t" using assms(2) by (auto simp: table_inv_def)
  then have s': "i < length (conns t)" "conn_table s' = Some (t\<lparr>conns := (conns t)[i := Some c]\<rparr>)"
    using assms(1) by (simp_all add: set_CONN_def split: if_splits) auto
  have "table_fine (t\<lparr>conns := (conns t)[i := Some c]\<rparr>)"
    using t(2) assms(3) s'(1) by (auto simp: table_fine_def nth_list_update)
  then show "table_inv s'" using s'(2) by (simp add: table_inv_def)
  show "conn_len s' = conn_len s" using t s' by (simp add: conn_len_def)
  show "CONN j s' = (if j = i then Some c else CONN j s)"
    using t(1) s' by (auto simp: CONN_def nth_list_update bind_Some_iff split: if_splits)
qed

text \<open>The life of a connection, as the slot of the table sees it.\<close>

inductive conn_life :: "conn_t \<Rightarrow> conn_t \<Rightarrow> bool" where
  stay: "conn_life c c"
| join_user: "c_state c = STATE_HANDSHAKE \<Longrightarrow> c_fd c \<noteq> -1 \<Longrightarrow> conn_life c (c\<lparr>c_type := CONN_USER, c_state := STATE_ACTIVE\<rparr>)"
| join_repl: "c_state c = STATE_HANDSHAKE \<Longrightarrow> c_fd c \<noteq> -1 \<Longrightarrow> conn_life c (c\<lparr>c_type := CONN_REPL, c_state := STATE_ACTIVE\<rparr>)"
| close: "c_fd c \<noteq> -1 \<Longrightarrow> conn_life c (c\<lparr>c_fd := -1\<rparr>)"

inductive_cases conn_lifeE: "conn_life c c'"

text \<open>What a step on slot \<open>i\<close> may do to the table.\<close>

definition slot_step :: "nat \<Rightarrow> db \<Rightarrow> db \<Rightarrow> bool" where
  "slot_step i s s' \<longleftrightarrow> table_inv s' \<and> conn_len s' = conn_len s \<and> (\<forall>j. j \<noteq> i \<longrightarrow> CONN j s' = CONN j s) \<and>
     (\<forall>c. CONN i s = Some c \<longrightarrow> (\<exists>c'. CONN i s' = Some c' \<and> conn_life c c'))"

lemma slot_step_same: "table_inv s \<Longrightarrow> conn_table s' = conn_table s \<Longrightarrow> slot_step i s s'"
  using table_cong [of s' s] by (auto simp: slot_step_def intro: conn_life.stay)

lemma slot_step_set:
  assumes "set_CONN i c' s1 = Some s'" "table_inv s" "conn_table s1 = conn_table s" "CONN i s = Some c"
    and "conn_life c c'" "conn_fine c'"
  shows "slot_step i s s'"
proof -
  note t = table_cong [OF assms(3)]
  have inv1: "table_inv s1" using t(1) assms(2) by simp
  note k = set_CONN_keeps [OF assms(1) inv1 assms(6)]
  show ?thesis unfolding slot_step_def using k t assms(4,5) by auto
qed

lemma slot_step_then:
  assumes "slot_step i s s1" "conn_table s2 = conn_table s1"
  shows "slot_step i s s2"
  using assms(1) table_cong [OF assms(2)] by (simp add: slot_step_def)

lemma fine_closed: "conn_fine c \<Longrightarrow> conn_fine (c\<lparr>c_fd := -1\<rparr>)"
  by (simp add: conn_fine_def)

lemma fine_joined: "t \<noteq> CONN_UNKN \<Longrightarrow> conn_fine (c\<lparr>c_type := t, c_state := STATE_ACTIVE\<rparr>)"
  by (simp add: conn_fine_def)

lemma close_conn_step:
  assumes "close_conn i s1 = Some s'" "table_inv s" "conn_table s1 = conn_table s" "CONN i s = Some c" "c_fd c \<noteq> -1" "conn_fine c"
  shows "slot_step i s s'"
proof -
  have "CONN i s1 = Some c" using table_cong(3) [OF assms(3)] assms(4) by simp
  then have "set_CONN i (c\<lparr>c_fd := -1\<rparr>) (emit (Closed (c_fd c)) s1) = Some s'" using assms(1) by (simp add: close_conn_def)
  then show ?thesis
    by (rule slot_step_set [OF _ assms(2) _ assms(4) conn_life.close [OF assms(5)] fine_closed [OF assms(6)]])
      (simp add: assms(3))
qed

lemma recv_cmd_table: "recv_cmd s = (r, s') \<Longrightarrow> conn_table s' = conn_table s"
  by (auto simp: recv_cmd_def recv_next_def Let_def split: recv_result.splits if_splits)

lemma send_next_table: "send_next fd x s = (r, s') \<Longrightarrow> conn_table s' = conn_table s"
  by (auto simp: send_next_def)

lemma malloc_table: "malloc_ok s = (b, s') \<Longrightarrow> conn_table s' = conn_table s"
  by (auto simp: malloc_ok_def alloc_def)

lemma repl_handshake_table: "master_init_handshake_with_repl fd s = Some (r, s') \<Longrightarrow> conn_table s' = conn_table s"
  by (auto simp: master_init_handshake_with_repl_def bind_Some_iff Let_def split: if_splits prod.splits
      dest!: recv_cmd_table send_next_table malloc_table)

lemma handshake_step:
  assumes "conn_handshake i buf s1 = Some s'" "table_inv s" "conn_table s1 = conn_table s" "CONN i s = Some c"
    and "c_fd c \<noteq> -1" "conn_fine c" "c_state c = STATE_HANDSHAKE"
  shows "slot_step i s s'"
proof -
  have c1: "CONN i s1 = Some c" using table_cong(3) [OF assms(3)] assms(4) by simp
  consider "buf = USER_JOIN" | "buf \<noteq> USER_JOIN" "buf = REPL_JOIN" | "buf \<noteq> USER_JOIN" "buf \<noteq> REPL_JOIN" by blast
  then show ?thesis
  proof cases
    case 1
    then obtain s2 where s2: "set_CONN i (c\<lparr>c_type := CONN_USER, c_state := STATE_ACTIVE\<rparr>) s1 = Some s2"
      "s' = snd (send_next (c_fd c) USER_PROMPT s2)"
      using assms(1) c1 by (auto simp: conn_handshake_def bind_Some_iff case_prod_unfold)
    then have s2: "set_CONN i (c\<lparr>c_type := CONN_USER, c_state := STATE_ACTIVE\<rparr>) s1 = Some s2" "conn_table s' = conn_table s2"
      by (simp_all add: send_next_def)
    show ?thesis
      by (rule slot_step_then [OF slot_step_set [OF s2(1) assms(2-4) conn_life.join_user [OF assms(7,5)] fine_joined] s2(2)]) simp
  next
    case 2
    then obtain s2 r where s2: "set_CONN i (c\<lparr>c_type := CONN_REPL, c_state := STATE_ACTIVE\<rparr>) s1 = Some s2"
      "master_init_handshake_with_repl (c_fd c) s2 = Some (r, s')"
      using assms(1) c1 by (auto simp: conn_handshake_def bind_Some_iff)
    show ?thesis
      by (rule slot_step_then [OF slot_step_set [OF s2(1) assms(2-4) conn_life.join_repl [OF assms(7,5)] fine_joined]
            repl_handshake_table [OF s2(2)]]) simp
  next
    case 3
    then have "close_conn i s1 = Some s'" using assms(1) c1 by (simp add: conn_handshake_def)
    from close_conn_step [OF this assms(2-6)] show ?thesis .
  qed
qed

text \<open>Reading from a connection moves on in the input and changes nothing else.\<close>

lemma socket_read_frame:
  assumes "socket_read_data fd buf n s = Some (r, b, s')"
  shows "\<exists>k. s' = s\<lparr>sys := (sys s)\<lparr>n_recv := k\<rparr>\<rparr>"
proof -
  have "\<exists>k. snd (snd y) = s\<lparr>sys := (sys s)\<lparr>n_recv := k\<rparr>\<rparr>" if "socket_read_data fd buf n s = Some y" for y
  proof (rule socket_read_data.raw_induct
      [where P = "\<lambda>sock buf n s y. \<exists>k. snd (snd y) = s\<lparr>sys := (sys s)\<lparr>n_recv := k\<rparr>\<rparr>", OF _ that])
    fix f sock buf n s y
    assume IH: "\<And>sock buf n s y. f sock buf n s = Some y \<Longrightarrow> \<exists>k. snd (snd y) = s\<lparr>sys := (sys s)\<lparr>n_recv := k\<rparr>\<rparr>"
      and run: "(let (r, s1) = recv_next s
      in case r of
           Received t \<Rightarrow>
             (if take n t = [] then Some (DB_ERR_CLIENT_CLOSED, buf, s1)
              else Some (DB_ERR_OK, first_line (take n t), s1))
         | EndOfFile \<Rightarrow> Some (DB_ERR_CLIENT_CLOSED, buf, s1)
         | Interrupted \<Rightarrow> f sock buf n s1
         | ReadError \<Rightarrow> Some (DB_ERR_CLIENT_FATAL, buf, s1)) = Some y"
    show "\<exists>k. snd (snd y) = s\<lparr>sys := (sys s)\<lparr>n_recv := k\<rparr>\<rparr>"
    proof (cases "recv_res (sys s) (n_recv (sys s)) = Interrupted")
      case True
      then have "f sock buf n (snd (recv_next s)) = Some y" using run by (simp add: recv_next_def)
      from IH [OF this] show ?thesis by (auto simp: recv_next_def)
    next
      case False
      then have "snd (snd y) = snd (recv_next s)"
        using run by (auto simp: recv_next_def split: recv_result.splits if_splits)
      then show ?thesis by (auto simp: recv_next_def)
    qed
  qed
  from this [OF assms] show ?thesis by simp
qed

lemma handle_request_table: "handle_request conn req s = Some (r, s') \<Longrightarrow> conn_table s' = conn_table s"
  using handle_request_hc [of conn req s r s'] conn_table_hc [of s' s] unfolding fixed_eq by blast

lemma active_step:
  assumes "conn_active i buf s1 = Some (stop, s')" "table_inv s" "conn_table s1 = conn_table s" "CONN i s = Some c"
    and "c_fd c \<noteq> -1" "conn_fine c"
  shows "slot_step i s s'"
proof (cases "c_type c = CONN_USER \<and> c_fd c > 0")
  case False
  have "CONN i s1 = Some c" using table_cong(3) [OF assms(3)] assms(4) by simp
  then have "s' = s1" using assms(1) False by (auto simp: conn_active_def)
  then show ?thesis using slot_step_same [OF assms(2,3)] by simp
next
  case True
  have "CONN i s1 = Some c" using table_cong(3) [OF assms(3)] assms(4) by simp
  then obtain res s2 where s2: "(if buf \<noteq> [] then handle_request (Some c) buf s1 else Some (DB_ERR_OK, s1)) = Some (res, s2)"
    "(if res = DB_ERR_EXIT then do { s3 \<leftarrow> close_conn i s2; Some (False, s3) } else Some (res = DB_ERR_SHUTDOWN, s2)) = Some (stop, s')"
    using assms(1) True by (auto simp: conn_active_def bind_Some_iff)
  have t: "conn_table s2 = conn_table s"
    using s2(1) handle_request_table [of "Some c" buf s1 res s2] assms(3) by (auto split: if_splits)
  show ?thesis
  proof (cases "res = DB_ERR_EXIT")
    case True
    then have "close_conn i s2 = Some s'" using s2(2) by (auto simp: bind_Some_iff)
    from close_conn_step [OF this assms(2) t assms(4-6)] show ?thesis .
  next
    case False
    then have "s' = s2" using s2(2) by simp
    then show ?thesis using slot_step_same [OF assms(2) t] by simp
  qed
qed

lemma serve_conn_step:
  assumes "serve_conn readfds i s = Some (stop, s')" "table_inv s" "i < conn_len s"
  shows "slot_step i s s'"
proof -
  obtain c where c: "CONN i s = Some c" "conn_fine c" using table_invD [OF assms(2,3)] by auto
  show ?thesis
  proof (cases "c_fd c = -1 \<or> c_fd c \<notin> set readfds")
    case True
    then have "s' = s" using assms(1) c(1) by (auto simp: serve_conn_def split: if_splits)
    then show ?thesis using slot_step_same [OF assms(2)] by simp
  next
    case False
    obtain ok s1 where m: "malloc_ok s = (ok, s1)" by fastforce
    obtain r buf s2 where r: "socket_read_data (c_fd c) [] (MAX_CMD_LEN - 1) s1 = Some (r, buf, s2)"
      and run: "(if r = DB_ERR_CLIENT_CLOSED \<or> r = DB_ERR_CLIENT_FATAL then do { s3 \<leftarrow> close_conn i s2; Some (False, s3) }
         else if c_state c = STATE_HANDSHAKE then do { s3 \<leftarrow> conn_handshake i buf s2; Some (False, s3) }
         else conn_active i buf s2) = Some (stop, s')"
      using assms(1) c(1) False m by (auto simp: serve_conn_def bind_Some_iff split: if_splits)
    have t: "conn_table s2 = conn_table s"
      using socket_read_frame [OF r] malloc_table [OF m] by auto
    have open_fd: "c_fd c \<noteq> -1" using False by simp
    consider "r = DB_ERR_CLIENT_CLOSED \<or> r = DB_ERR_CLIENT_FATAL"
      | "\<not> (r = DB_ERR_CLIENT_CLOSED \<or> r = DB_ERR_CLIENT_FATAL)" "c_state c = STATE_HANDSHAKE"
      | "\<not> (r = DB_ERR_CLIENT_CLOSED \<or> r = DB_ERR_CLIENT_FATAL)" "c_state c \<noteq> STATE_HANDSHAKE" by blast
    then show ?thesis
    proof cases
      case 1
      then have "close_conn i s2 = Some s'" using run by (auto simp: bind_Some_iff)
      from close_conn_step [OF this assms(2) t c(1) open_fd c(2)] show ?thesis .
    next
      case 2
      then have "conn_handshake i buf s2 = Some s'" using run by (auto simp: bind_Some_iff)
      from handshake_step [OF this assms(2) t c(1) open_fd c(2) 2(2)] show ?thesis .
    next
      case 3
      then have "conn_active i buf s2 = Some (stop, s')" using run by simp
      from active_step [OF this assms(2) t c(1) open_fd c(2)] show ?thesis .
    qed
  qed
qed

end
