(* ===== verification/Expiry_Queue.thy ===== *)
theory Expiry_Queue
  imports Prelude
begin

text \<open>
  The interface between the table and the expiry heap: a queue of entries that live in a
  memory shared with the caller. The caller may insert an entry, take the earliest one,
  and remove any entry from the middle; in return it learns that nothing but the
  bookkeeping of the queue changes in the memory (\<open>frame\<close>). The lemmas below hold for
  every queue of this kind.
\<close>

fun drain :: "('h \<Rightarrow> 'm \<Rightarrow> ('a option \<times> 'h \<times> 'm) option) \<Rightarrow> nat \<Rightarrow> 'h \<Rightarrow> 'm \<Rightarrow> 'a list option" where
  "drain pop 0 h m = Some []"
| "drain pop (Suc n) h m = do {
     (r, h', m') \<leftarrow> pop h m;
     case r of None \<Rightarrow> Some [] | Some a \<Rightarrow> map_option (\<lambda>xs. a # xs) (drain pop n h' m') }"

locale expiry_queue =
  fixes inv :: "'h \<Rightarrow> 'm \<Rightarrow> bool"
    and elems :: "'h \<Rightarrow> 'a set"
    and live :: "'m \<Rightarrow> 'a \<Rightarrow> bool"
    and key :: "'m \<Rightarrow> 'a \<Rightarrow> int"
    and frame :: "'m \<Rightarrow> 'm \<Rightarrow> bool"
    and fits :: "'h \<Rightarrow> bool"
    and room :: "'h \<Rightarrow> 'm \<Rightarrow> bool"
    and ins :: "'h \<Rightarrow> 'm \<Rightarrow> 'a \<Rightarrow> (int \<times> 'h \<times> 'm) option"
    and rmv :: "'h \<Rightarrow> 'm \<Rightarrow> 'a \<Rightarrow> (int \<times> 'h \<times> 'm) option"
    and pop :: "'h \<Rightarrow> 'm \<Rightarrow> ('a option \<times> 'h \<times> 'm) option"
  assumes frame_refl: "frame m m"
    and frame_trans: "frame m m' \<Longrightarrow> frame m' m'' \<Longrightarrow> frame m m''"
    and frame_live: "frame m m' \<Longrightarrow> live m' a \<longleftrightarrow> live m a"
    and frame_key: "frame m m' \<Longrightarrow> live m a \<Longrightarrow> key m' a = key m a"
    and elems_live: "inv h m \<Longrightarrow> a \<in> elems h \<Longrightarrow> live m a"
    and elems_finite: "inv h m \<Longrightarrow> finite (elems h)"
    and ins_law: "inv h m \<Longrightarrow> live m a \<Longrightarrow> a \<notin> elems h \<Longrightarrow> fits h \<Longrightarrow>
      \<exists>h' m'. ins h m a = Some (if room h m then 0 else 3, h', m') \<and> inv h' m' \<and>
        elems h' = (if room h m then insert a (elems h) else elems h) \<and> frame m m'"
    and rmv_in: "inv h m \<Longrightarrow> a \<in> elems h \<Longrightarrow>
      \<exists>h' m'. rmv h m a = Some (0, h', m') \<and> inv h' m' \<and> elems h' = elems h - {a} \<and> frame m m'"
    and rmv_out: "inv h m \<Longrightarrow> live m a \<Longrightarrow> a \<notin> elems h \<Longrightarrow> rmv h m a = Some (4, h, m)"
    and pop_empty: "inv h m \<Longrightarrow> elems h = {} \<Longrightarrow> pop h m = Some (None, h, m)"
    and pop_min: "inv h m \<Longrightarrow> elems h \<noteq> {} \<Longrightarrow>
      \<exists>a h' m'. pop h m = Some (Some a, h', m') \<and> a \<in> elems h \<and> (\<forall>b\<in>elems h. key m a \<le> key m b) \<and>
        inv h' m' \<and> elems h' = elems h - {a} \<and> frame m m'"
begin

text \<open>Removal never fails on a live entry, and afterwards the entry is out.\<close>

lemma rmv_total:
  assumes "inv h m" "live m a"
  shows "\<exists>h' m'. rmv h m a = Some (if a \<in> elems h then 0 else 4, h', m') \<and> inv h' m' \<and>
    elems h' = elems h - {a} \<and> frame m m'"
proof (cases "a \<in> elems h")
  case True
  then show ?thesis using rmv_in [OF assms(1)] by simp
next
  case False
  then show ?thesis using rmv_out [OF assms] assms(1) frame_refl by simp
qed

text \<open>Removing an entry again is refused and changes nothing.\<close>

lemma rmv_twice:
  assumes "inv h m" "live m a" "rmv h m a = Some (r, h', m')"
  shows "rmv h' m' a = Some (4, h', m')"
proof -
  from rmv_total [OF assms(1,2)] assms(3) have "inv h' m'" "a \<notin> elems h'" "frame m m'" by auto
  then show ?thesis using rmv_out frame_live assms(2) by blast
qed

text \<open>Taking the earliest entry until the queue is empty gives all of them in order.\<close>

lemma drain_sorted:
  assumes "inv h m" "card (elems h) = n"
  shows "\<exists>xs. drain pop n h m = Some xs \<and> sorted (map (key m) xs) \<and> set xs = elems h \<and> distinct xs"
  using assms
proof (induction n arbitrary: h m)
  case 0
  then show ?case using elems_finite by auto
next
  case (Suc n)
  then have "elems h \<noteq> {}" by auto
  from pop_min [OF Suc.prems(1) this] obtain a h' m' where p: "pop h m = Some (Some a, h', m')" "a \<in> elems h"
    "\<forall>b\<in>elems h. key m a \<le> key m b" "inv h' m'" "elems h' = elems h - {a}" "frame m m'" by blast
  have "card (elems h') = n" using p(2,5) Suc.prems elems_finite by simp
  from Suc.IH [OF p(4) this] obtain xs where xs: "drain pop n h' m' = Some xs"
    "sorted (map (key m') xs)" "set xs = elems h'" "distinct xs" by blast
  have same: "map (key m') xs = map (key m) xs"
    using xs(3) p(5,6) frame_key elems_live [OF Suc.prems(1)] by (intro map_cong) auto
  have "sorted (map (key m) xs)" using xs(2) unfolding same .
  then have "sorted (map (key m) (a # xs))" using xs(3) p(3,5) by simp
  moreover have "drain pop (Suc n) h m = Some (a # xs)" using p(1) xs(1) by simp
  ultimately show ?case using xs(3,4) p(2,5) by (intro exI [of _ "a # xs"]) auto
qed

end

end
