(* ===== verification/Ttl_Proof.thy ===== *)
theory Ttl_Proof
  imports Ttl Expiry_Queue
begin

text \<open>
  Correctness of the expiry heap. The order of a binary heap is first treated on a plain
  function from positions to keys, one swap at a time; the invariant then ties the array,
  the size and the \<open>heap_index\<close> fields of the store together, and each C function is
  shown to run without undefined behaviour and to keep it.
\<close>

section \<open>Heap order on positions\<close>

definition ord_upto :: "(nat \<Rightarrow> int) \<Rightarrow> nat \<Rightarrow> bool" where
  "ord_upto f n \<longleftrightarrow> (\<forall>j. 0 < j \<longrightarrow> j < n \<longrightarrow> f (PARENT j) \<le> f j)"

text \<open>Ordered but for the key at \<open>i\<close>, which may be too small for its place.\<close>

definition up_ok :: "(nat \<Rightarrow> int) \<Rightarrow> nat \<Rightarrow> nat \<Rightarrow> bool" where
  "up_ok f n i \<longleftrightarrow>
     (\<forall>j. 0 < j \<longrightarrow> j < n \<longrightarrow> j \<noteq> i \<longrightarrow> f (PARENT j) \<le> f j) \<and>
     (\<forall>j. 0 < j \<longrightarrow> j < n \<longrightarrow> PARENT j = i \<longrightarrow> 0 < i \<longrightarrow> f (PARENT i) \<le> f j)"

text \<open>Ordered but for the key at \<open>i\<close>, which may be too large for its place.\<close>

definition down_ok :: "(nat \<Rightarrow> int) \<Rightarrow> nat \<Rightarrow> nat \<Rightarrow> bool" where
  "down_ok f n i \<longleftrightarrow>
     (\<forall>j. 0 < j \<longrightarrow> j < n \<longrightarrow> PARENT j \<noteq> i \<longrightarrow> f (PARENT j) \<le> f j) \<and>
     (\<forall>j. 0 < j \<longrightarrow> j < n \<longrightarrow> PARENT j = i \<longrightarrow> 0 < i \<longrightarrow> f (PARENT i) \<le> f j)"

definition swp :: "nat \<Rightarrow> nat \<Rightarrow> nat \<Rightarrow> nat" where
  "swp a b j = (if j = a then b else if j = b then a else j)"

lemma PARENT_less: "0 < i \<Longrightarrow> PARENT i < i"
  by (simp add: PARENT_def)

lemma PARENT_child: "0 < j \<Longrightarrow> PARENT j = i \<longleftrightarrow> j = LEFT i \<or> j = RIGHT i"
  by (auto simp: PARENT_def LEFT_def RIGHT_def)

lemma PARENT_LEFT [simp]: "PARENT (LEFT i) = i" and PARENT_RIGHT [simp]: "PARENT (RIGHT i) = i"
  by (auto simp: PARENT_def LEFT_def RIGHT_def)

lemma LEFT_gt: "i < LEFT i" and RIGHT_gt: "i < RIGHT i" and LEFT_neq_RIGHT: "LEFT i \<noteq> RIGHT j"
  by (auto simp: LEFT_def RIGHT_def) presburger

lemma ord_upto_min: "ord_upto f n \<Longrightarrow> i < n \<Longrightarrow> f 0 \<le> f i"
proof (induction i rule: less_induct)
  case (less i)
  show ?case
  proof (cases "i = 0")
    case False
    then have "f 0 \<le> f (PARENT i)" and "f (PARENT i) \<le> f i"
      using less PARENT_less [of i] by (auto simp: ord_upto_def)
    then show ?thesis by simp
  qed simp
qed

lemma ord_upto_cong: "(\<And>j. j < n \<Longrightarrow> g j = f j) \<Longrightarrow> ord_upto g n \<longleftrightarrow> ord_upto f n"
  unfolding ord_upto_def using PARENT_less by (metis less_trans)

lemma up_ok_done: "up_ok f n i \<Longrightarrow> i = 0 \<or> f (PARENT i) \<le> f i \<Longrightarrow> ord_upto f n"
  unfolding up_ok_def ord_upto_def
proof (intro allI impI, goal_cases)
  case (1 j)
  then show ?case by (cases "j = i") auto
qed

lemma up_ok_last: "ord_upto f n \<Longrightarrow> (\<And>j. j < n \<Longrightarrow> g j = f j) \<Longrightarrow> up_ok g (Suc n) n"
proof -
  assume o: "ord_upto f n" and g: "\<And>j. j < n \<Longrightarrow> g j = f j"
  have "g (PARENT j) \<le> g j" if "0 < j" "j < Suc n" "j \<noteq> n" for j
  proof -
    from that have "j < n" "PARENT j < n" using PARENT_less [of j] by auto
    with o g that show ?thesis by (simp add: ord_upto_def)
  qed
  moreover have "PARENT j \<noteq> n" if "0 < j" "j < Suc n" for j
    using that PARENT_less [of j] by auto
  ultimately show ?thesis by (auto simp: up_ok_def)
qed

lemma up_ok_step:
  assumes u: "up_ok f n i" and i: "0 < i" "i < n" and le: "f i \<le> f (PARENT i)"
    and g: "\<And>j. j < n \<Longrightarrow> g j = f (swp i (PARENT i) j)"
  shows "up_ok g n (PARENT i)"
proof -
  let ?p = "PARENT i"
  have p: "?p < i" using i by (rule_tac PARENT_less)
  have u1: "f (PARENT j) \<le> f j" if "0 < j" "j < n" "j \<noteq> i" for j
    using u that by (simp add: up_ok_def)
  have u2: "f ?p \<le> f j" if "0 < j" "j < n" "PARENT j = i" for j
    using u that i by (auto simp: up_ok_def)
  have gi: "g i = f ?p" and gp: "g ?p = f i" and go: "\<And>j. j < n \<Longrightarrow> j \<noteq> i \<Longrightarrow> j \<noteq> ?p \<Longrightarrow> g j = f j"
    using g i p by (auto simp: swp_def)
  have A: "g (PARENT j) \<le> g j" if j: "0 < j" "j < n" "j \<noteq> ?p" for j
  proof -
    have pj: "PARENT j < n" using j PARENT_less [of j] by linarith
    consider "j = i" | "j \<noteq> i" "PARENT j = i" | "j \<noteq> i" "PARENT j = ?p" | "j \<noteq> i" "PARENT j \<noteq> i" "PARENT j \<noteq> ?p"
      by blast
    then show ?thesis
    proof cases
      case 1 then show ?thesis using gi gp le by simp
    next
      case 2 then show ?thesis using gi go j u2 by simp
    next
      case 3 then show ?thesis using gp go j u1 [of j] le by simp
    next
      case 4 then show ?thesis using go j pj u1 [of j] by simp
    qed
  qed
  have B: "g (PARENT ?p) \<le> g j" if j: "0 < j" "j < n" "PARENT j = ?p" "0 < ?p" for j
  proof -
    have pp: "PARENT ?p < ?p" using j(4) by (rule PARENT_less)
    have fp: "f (PARENT ?p) \<le> f ?p" using u1 [of ?p] j(4) p i by simp
    have "g (PARENT ?p) = f (PARENT ?p)" using go [of "PARENT ?p"] pp p i by simp
    moreover have "f ?p \<le> g j"
    proof (cases "j = i")
      case True then show ?thesis using gi by simp
    next
      case False
      then have "j \<noteq> ?p" using j PARENT_less [of j] by auto
      then show ?thesis using go [of j] False j u1 [of j] by simp
    qed
    ultimately show ?thesis using fp by simp
  qed
  show ?thesis unfolding up_ok_def using A B by blast
qed

lemma down_ok_done:
  assumes d: "down_ok f n i" and l: "LEFT i < n \<Longrightarrow> f i \<le> f (LEFT i)"
    and r: "RIGHT i < n \<Longrightarrow> f i \<le> f (RIGHT i)"
  shows "ord_upto f n"
proof -
  have "f (PARENT j) \<le> f j" if j: "0 < j" "j < n" for j
  proof (cases "PARENT j = i")
    case True then show ?thesis using PARENT_child [OF j(1), of i] l r j by auto
  next
    case False then show ?thesis using d j by (simp add: down_ok_def)
  qed
  then show ?thesis by (simp add: ord_upto_def)
qed

lemma down_ok_step:
  assumes d: "down_ok f n i" and s: "0 < s" "s < n" "PARENT s = i" and le: "f s \<le> f i"
    and small: "\<And>j. 0 < j \<Longrightarrow> j < n \<Longrightarrow> PARENT j = i \<Longrightarrow> f s \<le> f j"
    and g: "\<And>j. j < n \<Longrightarrow> g j = f (swp i s j)"
  shows "down_ok g n s"
proof -
  have si: "i < s" using s PARENT_less by blast
  have d1: "f (PARENT j) \<le> f j" if "0 < j" "j < n" "PARENT j \<noteq> i" for j
    using d that by (simp add: down_ok_def)
  have d2: "f (PARENT i) \<le> f j" if "0 < j" "j < n" "PARENT j = i" "0 < i" for j
    using d that by (auto simp: down_ok_def)
  have gi: "g i = f s" and gs: "g s = f i" and go: "\<And>j. j < n \<Longrightarrow> j \<noteq> i \<Longrightarrow> j \<noteq> s \<Longrightarrow> g j = f j"
    using g s si by (auto simp: swp_def)
  have A: "g (PARENT j) \<le> g j" if j: "0 < j" "j < n" "PARENT j \<noteq> s" for j
  proof -
    have pj: "PARENT j < n" "PARENT j < j" using j PARENT_less [of j] by linarith+
    consider "j = s" | "j \<noteq> s" "PARENT j = i" | "j = i" | "j \<noteq> s" "j \<noteq> i" "PARENT j \<noteq> i" by blast
    then show ?thesis
    proof cases
      case 1 then show ?thesis using gi gs s le by simp
    next
      case 2
      then have "j \<noteq> i" using pj by auto
      then show ?thesis using 2 gi go [of j] j small [of j] by simp
    next
      case 3
      then have "PARENT j \<noteq> i" "PARENT j \<noteq> s" using pj j by auto
      then show ?thesis using 3 gi go [of "PARENT j"] pj d2 [of s] s j by simp
    next
      case 4 then show ?thesis using go [of j] go [of "PARENT j"] j pj d1 [of j] by simp
    qed
  qed
  have B: "g (PARENT s) \<le> g j" if j: "0 < j" "j < n" "PARENT j = s" for j
  proof -
    have "s < j" using j PARENT_less [of j] by simp
    then have "g j = f j" using go [of j] j si by simp
    moreover have "f s \<le> f j" using d1 [of j] j si by simp
    ultimately show ?thesis using s gi by simp
  qed
  show ?thesis unfolding down_ok_def using A B by blast
qed

text \<open>
  Removing position \<open>i\<close>: the key of the last position takes its place and the last
  position leaves the heap. What is left to repair is below \<open>i\<close> when the new key is
  larger than its parent, and above \<open>i\<close> otherwise.
\<close>

lemma moved_down:
  assumes o: "ord_upto f (Suc n)" and i: "i < n" and g: "\<And>j. j < n \<Longrightarrow> g j = f (swp i n j)"
    and up: "i = 0 \<or> g (PARENT i) < g i"
  shows "down_ok g n i"
proof -
  have f: "f (PARENT j) \<le> f j" if "0 < j" "j < Suc n" for j
    using o that by (simp add: ord_upto_def)
  have go: "\<And>j. j < n \<Longrightarrow> j \<noteq> i \<Longrightarrow> g j = f j" using g by (simp add: swp_def)
  have A: "g (PARENT j) \<le> g j" if j: "0 < j" "j < n" "PARENT j \<noteq> i" for j
  proof (cases "j = i")
    case True then show ?thesis using up j by auto
  next
    case False
    have "PARENT j < n" using j PARENT_less [of j] by linarith
    then show ?thesis using False go j f [of j] by simp
  qed
  have B: "g (PARENT i) \<le> g j" if j: "0 < j" "j < n" "PARENT j = i" "0 < i" for j
  proof -
    have "PARENT i < i" "i < j" using j PARENT_less [of i] PARENT_less [of j] by auto
    then show ?thesis
      using go [of j] go [of "PARENT i"] i j f [of i] f [of j] by simp
  qed
  show ?thesis unfolding down_ok_def using A B by blast
qed

lemma moved_up:
  assumes o: "ord_upto f (Suc n)" and i: "0 < i" "i < n" and g: "\<And>j. j < n \<Longrightarrow> g j = f (swp i n j)"
    and up: "g i \<le> g (PARENT i)"
  shows "up_ok g n i"
proof -
  have f: "f (PARENT j) \<le> f j" if "0 < j" "j < Suc n" for j
    using o that by (simp add: ord_upto_def)
  have go: "\<And>j. j < n \<Longrightarrow> j \<noteq> i \<Longrightarrow> g j = f j" using g by (simp add: swp_def)
  have p: "PARENT i < i" using i PARENT_less by blast
  have fi: "f (PARENT i) \<le> f i" using f [of i] i by simp
  have gp: "g (PARENT i) = f (PARENT i)" using go p i by simp
  have C: "f i \<le> f j" if "0 < j" "j < n" "PARENT j = i" for j using f [of j] that by simp
  have A: "g (PARENT j) \<le> g j" if j: "0 < j" "j < n" "j \<noteq> i" for j
  proof (cases "PARENT j = i")
    case True
    then show ?thesis using up gp fi C [of j] go [of j] j by simp
  next
    case False
    have "PARENT j < n" using j PARENT_less [of j] by linarith
    then show ?thesis using False go j f [of j] by simp
  qed
  have B: "g (PARENT i) \<le> g j" if j: "0 < j" "j < n" "PARENT j = i" for j
    using gp fi C [of j] go [of j] j PARENT_less [of j] by auto
  show ?thesis unfolding up_ok_def using A B by blast
qed

section \<open>The invariant of the heap\<close>

text \<open>The entries the heap points to, and the expiry time at a position.\<close>

definition heap_set :: "ttl_heap \<Rightarrow> addr set" where
  "heap_set h = {a. \<exists>i<h_size h. heap_read h i = Some a}"

definition key_at :: "ttl_heap \<Rightarrow> memory \<Rightarrow> nat \<Rightarrow> int" where
  "key_at h m i =
     (case heap_read h i of None \<Rightarrow> 0
      | Some a \<Rightarrow> (case ents m a of None \<Rightarrow> 0 | Some e \<Rightarrow> e_expiry e))"

text \<open>Every position in use holds a live entry that knows its position.\<close>

definition ttl_wf :: "ttl_heap \<Rightarrow> memory \<Rightarrow> bool" where
  "ttl_wf h m \<longleftrightarrow> length (heap_arr h) = h_capacity h \<and> h_size h \<le> h_capacity h \<and>
     (\<forall>i<h_size h. \<exists>a e. heap_read h i = Some a \<and> ents m a = Some e \<and> e_heap_index e = i)"

text \<open>An entry that is not in the heap carries the index \<open>SIZE_MAX\<close>.\<close>

definition ttl_out :: "ttl_heap \<Rightarrow> memory \<Rightarrow> bool" where
  "ttl_out h m \<longleftrightarrow> (\<forall>a e. ents m a = Some e \<longrightarrow> a \<notin> heap_set h \<longrightarrow> e_heap_index e = SIZE_MAX)"

definition ttl_inv :: "ttl_heap \<Rightarrow> memory \<Rightarrow> bool" where
  "ttl_inv h m \<longleftrightarrow> ttl_wf h m \<and> ttl_out h m \<and> ord_upto (key_at h m) (h_size h) \<and> h_size h < SIZE_MAX"

text \<open>Two memories that differ in the \<open>heap_index\<close> of entries only.\<close>

definition index_only :: "memory \<Rightarrow> memory \<Rightarrow> bool" where
  "index_only m m' \<longleftrightarrow>
     (\<forall>a. map_option (\<lambda>e. e\<lparr>e_heap_index := 0\<rparr>) (ents m' a) = map_option (\<lambda>e. e\<lparr>e_heap_index := 0\<rparr>) (ents m a)) \<and>
     nxt m' = nxt m \<and> repls m' = repls m \<and> alloc_ok m' = alloc_ok m"

lemma index_only_refl [simp]: "index_only m m"
  by (simp add: index_only_def)

lemma index_only_trans [trans]: "index_only m m' \<Longrightarrow> index_only m' m'' \<Longrightarrow> index_only m m''"
  by (simp add: index_only_def)

lemma index_only_D:
  assumes "index_only m m'" and "ents m a = Some e"
  shows "\<exists>e'. ents m' a = Some e' \<and> e'\<lparr>e_heap_index := 0\<rparr> = e\<lparr>e_heap_index := 0\<rparr>"
proof -
  have "map_option (\<lambda>e. e\<lparr>e_heap_index := 0\<rparr>) (ents m' a) = Some (e\<lparr>e_heap_index := 0\<rparr>)"
    using assms by (simp add: index_only_def)
  then show ?thesis by (cases "ents m' a") auto
qed

lemma same_but_index:
  assumes "(e'::Entry)\<lparr>e_heap_index := 0\<rparr> = e\<lparr>e_heap_index := 0\<rparr>"
  shows "e_key e' = e_key e" "e_value e' = e_value e" "e_next e' = e_next e"
    "e_prev e' = e_prev e" "e_expiry e' = e_expiry e"
  using assms by (cases e; cases e'; simp)+

lemma index_only_fields:
  assumes "index_only m m'" and "ents m a = Some e"
  shows "\<exists>e'. ents m' a = Some e' \<and> e_key e' = e_key e \<and> e_value e' = e_value e \<and>
    e_next e' = e_next e \<and> e_prev e' = e_prev e \<and> e_expiry e' = e_expiry e"
  using index_only_D [OF assms] same_but_index by metis

lemma index_only_dom: "index_only m m' \<Longrightarrow> ents m' a = None \<longleftrightarrow> ents m a = None"
  unfolding index_only_def by (metis map_option_is_None)

lemma set_index_Some:
  "ents m a = Some e \<Longrightarrow> set_index m a i = Some (put_entry m a (e\<lparr>e_heap_index := i\<rparr>))"
  by (simp add: set_index_def)

lemma index_only_put:
  "ents m a = Some e \<Longrightarrow> index_only m (put_entry m a (e\<lparr>e_heap_index := i\<rparr>))"
  by (simp add: index_only_def)

lemma ttl_wfD:
  "ttl_wf h m \<Longrightarrow> i < h_size h \<Longrightarrow> \<exists>a e. heap_read h i = Some a \<and> ents m a = Some e \<and> e_heap_index e = i"
  by (simp add: ttl_wf_def)

lemma ttl_wf_inj:
  "ttl_wf h m \<Longrightarrow> i < h_size h \<Longrightarrow> j < h_size h \<Longrightarrow> heap_read h i = heap_read h j \<Longrightarrow> i = j"
  using ttl_wfD [of h m i] ttl_wfD [of h m j] by auto

lemma heap_read_less: "ttl_wf h m \<Longrightarrow> i < h_size h \<Longrightarrow> i < length (heap_arr h)"
  by (simp add: ttl_wf_def)

text \<open>What one operation on the heap array may do: permute it.\<close>

definition permuted :: "ttl_heap \<Rightarrow> memory \<Rightarrow> ttl_heap \<Rightarrow> memory \<Rightarrow> bool" where
  "permuted h m h' m' \<longleftrightarrow> ttl_wf h' m' \<and> h_size h' = h_size h \<and> h_capacity h' = h_capacity h \<and>
     heap_set h' = heap_set h \<and> index_only m m' \<and> (\<forall>x. x \<notin> heap_set h \<longrightarrow> ents m' x = ents m x)"

lemma permuted_refl: "ttl_wf h m \<Longrightarrow> permuted h m h m"
  by (simp add: permuted_def)

lemma permuted_trans: "permuted h m h' m' \<Longrightarrow> permuted h' m' h'' m'' \<Longrightarrow> permuted h m h'' m''"
  unfolding permuted_def using index_only_trans by metis

lemma key_at_index_only:
  assumes "index_only m m'" shows "key_at h m' i = key_at h m i"
proof (cases "heap_read h i")
  case (Some a)
  then show ?thesis
    using assms index_only_fields [of m m' a] index_only_dom [of m m' a]
    by (cases "ents m a") (auto simp: key_at_def)
qed (simp add: key_at_def)

lemma compare_at_eq:
  assumes "ttl_wf h m" "i < h_size h" "j < h_size h"
  shows "compare_at h m i j = Some (key_at h m i \<le> key_at h m j)"
  using ttl_wfD [OF assms(1,2)] ttl_wfD [OF assms(1,3)]
  by (auto simp: compare_at_def compare_ttl_def key_at_def)

section \<open>The operations\<close>

lemma swap_nodes_ok:
  assumes wf: "ttl_wf h m" and a: "a < h_size h" and b: "b < h_size h"
  shows "\<exists>h' m'. swap_nodes h m a b = Some (h', m') \<and> permuted h m h' m' \<and>
    (\<forall>i<h_size h. heap_read h' i = heap_read h (swp a b i)) \<and>
    (\<forall>i. \<not> i < h_size h \<longrightarrow> heap_read h' i = heap_read h i)"
proof -
  obtain x ex where x: "heap_read h a = Some x" "ents m x = Some ex" "e_heap_index ex = a"
    using ttl_wfD [OF wf a] by blast
  obtain y ey where y: "heap_read h b = Some y" "ents m y = Some ey" "e_heap_index ey = b"
    using ttl_wfD [OF wf b] by blast
  have la: "a < length (heap_arr h)" and lb: "b < length (heap_arr h)"
    using wf a b by (auto simp: heap_read_less)
  let ?h = "h\<lparr>heap_arr := (heap_arr h)[a := Some y, b := Some x]\<rparr>"
  have rd: "heap_read ?h i = heap_read h (swp a b i)" for i
    using la lb x(1) y(1) by (auto simp: heap_read_def swp_def nth_list_update)
  have xa: "heap_read ?h a = Some y" and xb: "heap_read ?h b = Some x"
    using rd x y by (auto simp: swp_def)
  have same: "x = y \<longleftrightarrow> a = b" using x y by auto
  let ?m1 = "put_entry m y (ey\<lparr>e_heap_index := a\<rparr>)"
  obtain ex1 where ex1: "ents ?m1 x = Some ex1" "ex1\<lparr>e_heap_index := 0\<rparr> = ex\<lparr>e_heap_index := 0\<rparr>"
    using x y by (cases "x = y") auto
  let ?m2 = "put_entry ?m1 x (ex1\<lparr>e_heap_index := b\<rparr>)"
  have run: "swap_nodes h m a b = Some (?h, ?m2)"
    unfolding swap_nodes_def using x(1) y(1) xa xb set_index_Some [OF y(2)] set_index_Some [OF ex1(1)]
    by simp
  have io: "index_only m ?m2"
    using index_only_put [OF y(2)] index_only_put [OF ex1(1)] by (rule index_only_trans)
  have sw: "swp a b i < h_size h" if "i < h_size h" for i using that a b by (simp add: swp_def)
  have swsw: "swp a b (swp a b i) = i" for i by (auto simp: swp_def)
  have set: "heap_set ?h = heap_set h"
  proof -
    have "z \<in> heap_set h" if "z \<in> heap_set ?h" for z
      using that rd sw by (auto simp: heap_set_def)
    moreover have "z \<in> heap_set ?h" if "z \<in> heap_set h" for z
    proof -
      from that obtain i where i: "i < h_size h" "heap_read h i = Some z" by (auto simp: heap_set_def)
      have "heap_read ?h (swp a b i) = Some z" using i(2) rd swsw by simp
      then show ?thesis using sw [OF i(1)] by (auto simp: heap_set_def)
    qed
    ultimately show ?thesis by blast
  qed
  have wf': "ttl_wf ?h ?m2"
    unfolding ttl_wf_def
  proof (intro conjI allI impI)
    fix i assume "i < h_size ?h"
    then have i: "i < h_size h" by simp
    obtain z ez where z: "heap_read h (swp a b i) = Some z" "ents m z = Some ez" "e_heap_index ez = swp a b i"
      using ttl_wfD [OF wf sw [OF i]] by blast
    consider "i = b" | "i \<noteq> b" "i = a" | "i \<noteq> a" "i \<noteq> b" by blast
    then have "\<exists>e. ents ?m2 z = Some e \<and> e_heap_index e = i"
    proof cases
      case 1
      then have "z = x" using z(1) x(1) by (cases "a = b") (auto simp: swp_def)
      then show ?thesis using 1 by simp
    next
      case 2
      then have "z = y" "z \<noteq> x" using z(1) y(1) same by (auto simp: swp_def)
      then show ?thesis using 2 by simp
    next
      case 3
      then have "e_heap_index ez = i" using z(3) by (simp add: swp_def)
      then have "z \<noteq> x" "z \<noteq> y" using 3 x y z by auto
      then show ?thesis using z(2) \<open>e_heap_index ez = i\<close> by simp
    qed
    then show "\<exists>a' e. heap_read ?h i = Some a' \<and> ents ?m2 a' = Some e \<and> e_heap_index e = i"
      using z(1) rd by auto
  qed (use wf in \<open>auto simp: ttl_wf_def\<close>)
  have "x \<in> heap_set h" "y \<in> heap_set h" using a b x y by (auto simp: heap_set_def)
  then have out: "\<forall>z. z \<notin> heap_set h \<longrightarrow> ents ?m2 z = ents m z" by auto
  have "\<not> i < h_size h \<Longrightarrow> swp a b i = i" for i using a b by (auto simp: swp_def)
  then show ?thesis
    using run wf' set io out rd by (auto simp: permuted_def)
qed

lemma key_at_swap:
  assumes "permuted h m h' m'" "heap_read h' i = heap_read h (swp a b i)"
  shows "key_at h' m' i = key_at h m (swp a b i)"
proof -
  have "key_at h' m' i = key_at h' m i"
    using assms by (intro key_at_index_only) (simp add: permuted_def)
  then show ?thesis using assms(2) by (simp add: key_at_def)
qed

lemma shift_up_ok:
  assumes "ttl_wf h m" "i < h_size h" "up_ok (key_at h m) (h_size h) i"
  shows "\<exists>h' m'. shift_up h m i = Some (h', m') \<and> permuted h m h' m' \<and> ord_upto (key_at h' m') (h_size h)"
  using assms
proof (induction h m i rule: shift_up.induct)
  case (1 h m i)
  show ?case
  proof (cases "0 < i")
    case False
    then show ?thesis
      using 1 up_ok_done [of "key_at h m" _ i] by (subst shift_up.simps) (auto intro: permuted_refl)
  next
    case True
    have p: "PARENT i < h_size h" using True 1 PARENT_less [of i] by simp
    have cmp: "compare_at h m i (PARENT i) = Some (key_at h m i \<le> key_at h m (PARENT i))"
      using 1 p by (intro compare_at_eq)
    show ?thesis
    proof (cases "key_at h m i \<le> key_at h m (PARENT i)")
      case False
      then show ?thesis
        using 1 True cmp up_ok_done [of "key_at h m" _ i]
        by (subst shift_up.simps) (auto intro: permuted_refl)
    next
      case le: True
      obtain h1 m1 where sw: "swap_nodes h m i (PARENT i) = Some (h1, m1)" "permuted h m h1 m1"
        and rd: "\<forall>j<h_size h. heap_read h1 j = heap_read h (swp i (PARENT i) j)"
        using swap_nodes_ok [OF "1.prems"(1,2) p] by blast
      have sz: "h_size h1 = h_size h" and wf1: "ttl_wf h1 m1" using sw by (auto simp: permuted_def)
      have "up_ok (key_at h1 m1) (h_size h1) (PARENT i)"
        unfolding sz
        using up_ok_step [OF "1.prems"(3) True "1.prems"(2) le] key_at_swap [OF sw(2)] rd by blast
      then obtain h2 m2 where r: "shift_up h1 m1 (PARENT i) = Some (h2, m2)" "permuted h1 m1 h2 m2"
        "ord_upto (key_at h2 m2) (h_size h1)"
        using "1.IH" [OF True cmp _ sw(1) refl wf1] le p sz by auto
      have "shift_up h m i = Some (h2, m2)"
        using True cmp le sw(1) r(1) by (subst shift_up.simps) simp
      then show ?thesis using r sw(2) sz permuted_trans by metis
    qed
  qed
qed

lemma heapify_children:
  assumes wf: "ttl_wf h m" and i: "i < h_size h"
  obtains s where
    "s = i \<or> (i < s \<and> s < h_size h \<and> PARENT s = i \<and> key_at h m s \<le> key_at h m i)"
    "\<And>j. 0 < j \<Longrightarrow> j < h_size h \<Longrightarrow> PARENT j = i \<Longrightarrow> key_at h m s \<le> key_at h m j"
    "heapify h m i = (if s \<noteq> i then swap_nodes h m i s \<bind> (\<lambda>(h', m'). heapify h' m' s) else Some (h, m))"
proof -
  let ?k = "key_at h m"
  define bl where "bl \<longleftrightarrow> LEFT i < h_size h \<and> ?k (LEFT i) \<le> ?k i"
  define s1 where "s1 = (if bl then LEFT i else i)"
  define br where "br \<longleftrightarrow> RIGHT i < h_size h \<and> ?k (RIGHT i) \<le> ?k s1"
  define s where "s = (if br then RIGHT i else s1)"
  have s1: "s1 < h_size h" using i by (auto simp: s1_def bl_def)
  have L: "(if LEFT i < h_size h then compare_at h m (LEFT i) i else Some False) = Some bl"
    using compare_at_eq [OF wf _ i] by (auto simp: bl_def)
  have R: "(if RIGHT i < h_size h then compare_at h m (RIGHT i) s1 else Some False) = Some br"
    using compare_at_eq [OF wf _ s1] by (auto simp: br_def)
  have 1: "s = i \<or> (i < s \<and> s < h_size h \<and> PARENT s = i \<and> ?k s \<le> ?k i)"
    using LEFT_gt RIGHT_gt by (auto simp: s_def s1_def br_def bl_def)
  have 2: "?k s \<le> ?k j" if j: "0 < j" "j < h_size h" "PARENT j = i" for j
  proof -
    have s1l: "LEFT i < h_size h \<Longrightarrow> ?k s1 \<le> ?k (LEFT i)" by (auto simp: s1_def bl_def)
    have ss1: "?k s \<le> ?k s1" by (auto simp: s_def br_def)
    have sr: "RIGHT i < h_size h \<Longrightarrow> ?k s \<le> ?k (RIGHT i)" by (auto simp: s_def br_def)
    from j(3) PARENT_child [OF j(1)] have "j = LEFT i \<or> j = RIGHT i" by simp
    then show ?thesis using s1l ss1 sr j(2) by auto
  qed
  have 3: "heapify h m i = (if s \<noteq> i then swap_nodes h m i s \<bind> (\<lambda>(h', m'). heapify h' m' s) else Some (h, m))"
    by (subst heapify.simps) (simp add: L R s1_def [symmetric] s_def [symmetric])
  show ?thesis using that [OF 1 2 3] .
qed

lemma heapify_ok:
  assumes "ttl_wf h m" "i < h_size h" "down_ok (key_at h m) (h_size h) i"
  shows "\<exists>h' m'. heapify h m i = Some (h', m') \<and> permuted h m h' m' \<and> ord_upto (key_at h' m') (h_size h)"
  using assms
proof (induction "h_size h - i" arbitrary: h m i rule: less_induct)
  case less
  obtain s where s1: "s = i \<or> (i < s \<and> s < h_size h \<and> PARENT s = i \<and> key_at h m s \<le> key_at h m i)"
    and s2: "\<And>j. 0 < j \<Longrightarrow> j < h_size h \<Longrightarrow> PARENT j = i \<Longrightarrow> key_at h m s \<le> key_at h m j"
    and run: "heapify h m i = (if s \<noteq> i then swap_nodes h m i s \<bind> (\<lambda>(h', m'). heapify h' m' s) else Some (h, m))"
    using heapify_children [OF less.prems(1,2)] by blast
  show ?case
  proof (cases "s = i")
    case True
    have "ord_upto (key_at h m) (h_size h)"
      using less.prems(3) s2 [unfolded True] LEFT_gt [of i] RIGHT_gt [of i] by (intro down_ok_done) auto
    then show ?thesis using run True permuted_refl [OF less.prems(1)] by simp
  next
    case False
    then have s: "i < s" "s < h_size h" "PARENT s = i" "key_at h m s \<le> key_at h m i" using s1 by auto
    obtain h1 m1 where sw: "swap_nodes h m i s = Some (h1, m1)" "permuted h m h1 m1"
      and rd: "\<forall>j<h_size h. heap_read h1 j = heap_read h (swp i s j)"
      using swap_nodes_ok [OF less.prems(1,2) s(2)] by blast
    have sz: "h_size h1 = h_size h" and wf1: "ttl_wf h1 m1" using sw by (auto simp: permuted_def)
    have d: "down_ok (key_at h1 m1) (h_size h1) s"
      unfolding sz
    proof (rule down_ok_step [OF less.prems(3) _ s(2,3,4) s2])
      show "0 < s" using s by simp
      show "key_at h1 m1 j = key_at h m (swp i s j)" if "j < h_size h" for j
        using key_at_swap [OF sw(2)] rd that by blast
    qed
    have "h_size h1 - s < h_size h - i" using s sz by simp
    from less.hyps [OF this wf1 _ d] s(2) sz
    obtain h2 m2 where r: "heapify h1 m1 s = Some (h2, m2)" "permuted h1 m1 h2 m2"
      "ord_upto (key_at h2 m2) (h_size h1)" by auto
    have "heapify h m i = Some (h2, m2)" using run False sw(1) r(1) by simp
    then show ?thesis using r sw(2) sz permuted_trans by metis
  qed
qed

lemma heap_set_card: "ttl_wf h m \<Longrightarrow> card (heap_set h) = h_size h"
proof -
  assume wf: "ttl_wf h m"
  have "bij_betw (\<lambda>i. the (heap_read h i)) {..<h_size h} (heap_set h)"
    unfolding bij_betw_def
  proof
    show "inj_on (\<lambda>i. the (heap_read h i)) {..<h_size h}"
      using ttl_wfD [OF wf] ttl_wf_inj [OF wf] by (intro inj_onI) (metis lessThan_iff option.sel)
    show "(\<lambda>i. the (heap_read h i)) ` {..<h_size h} = heap_set h"
      using ttl_wfD [OF wf] by (force simp: heap_set_def)
  qed
  then show ?thesis using bij_betw_same_card by fastforce
qed

lemma heap_set_live: "ttl_wf h m \<Longrightarrow> a \<in> heap_set h \<Longrightarrow> \<exists>e. ents m a = Some e \<and> e_heap_index e < h_size h \<and> heap_read h (e_heap_index e) = Some a"
  unfolding heap_set_def using ttl_wfD by fastforce

text \<open>The index field decides membership, which is what \<open>heap_remove\<close> relies on.\<close>

lemma heap_index_iff:
  "ttl_inv h m \<Longrightarrow> ents m a = Some e \<Longrightarrow> e_heap_index e = SIZE_MAX \<longleftrightarrow> a \<notin> heap_set h"
  using heap_set_live [of h m a] by (auto simp: ttl_inv_def ttl_out_def)

lemma put_index_outside:
  assumes "ttl_wf h m" "ents m a = Some e" "a \<notin> heap_set h"
  shows "ttl_wf h (put_entry m a (e\<lparr>e_heap_index := i\<rparr>))"
proof -
  have "heap_read h j = Some a \<Longrightarrow> \<not> j < h_size h" for j using assms(3) by (auto simp: heap_set_def)
  then show ?thesis using assms(1) by (fastforce simp: ttl_wf_def)
qed

lemma cut_last:
  assumes wf: "ttl_wf h m" and n: "0 < h_size h" and e: "heap_read h (h_size h - 1) = Some e"
  defines "h' \<equiv> h\<lparr>h_size := h_size h - 1\<rparr>"
  shows "ttl_wf h' m" and "heap_set h' = heap_set h - {e}"
proof -
  have rd: "heap_read h' = heap_read h" by (simp add: h'_def heap_read_def fun_eq_iff)
  show "ttl_wf h' m" using wf rd by (auto simp: ttl_wf_def h'_def heap_read_def)
  show "heap_set h' = heap_set h - {e}"
  proof (intro equalityI subsetI)
    fix z assume "z \<in> heap_set h'"
    then obtain i where i: "i < h_size h - 1" "heap_read h i = Some z"
      by (auto simp: heap_set_def rd) (auto simp: h'_def)
    moreover from i(1) have "i < h_size h" by simp
    moreover have "z \<noteq> e" using i e ttl_wf_inj [OF wf \<open>i < h_size h\<close>, of "h_size h - 1"] n by auto
    ultimately show "z \<in> heap_set h - {e}" by (auto simp: heap_set_def)
  next
    fix z assume "z \<in> heap_set h - {e}"
    then obtain i where i: "i < h_size h" "heap_read h i = Some z" "z \<noteq> e" by (auto simp: heap_set_def)
    then have "i \<noteq> h_size h - 1" using e by auto
    then have "i < h_size h'" using i by (simp add: h'_def)
    then show "z \<in> heap_set h'" using i rd by (auto simp: heap_set_def)
  qed
qed

text \<open>What an operation may do to the memory when it touches the entries in \<open>S\<close> only.\<close>

definition touches :: "addr set \<Rightarrow> memory \<Rightarrow> memory \<Rightarrow> bool" where
  "touches S m m' \<longleftrightarrow> index_only m m' \<and> (\<forall>x. x \<notin> S \<longrightarrow> ents m' x = ents m x)"

lemma touches_index_only: "touches S m m' \<Longrightarrow> index_only m m'"
  by (simp add: touches_def)

lemma touches_trans: "touches S m m' \<Longrightarrow> touches T m' m'' \<Longrightarrow> S \<subseteq> U \<Longrightarrow> T \<subseteq> U \<Longrightarrow> touches U m m''"
  unfolding touches_def using index_only_trans by (metis subsetD)

lemma touches_put: "ents m a = Some e \<Longrightarrow> touches {a} m (put_entry m a (e\<lparr>e_heap_index := i\<rparr>))"
  by (simp add: touches_def index_only_put)

lemma touches_alloc: "touches {} m (snd (alloc m))"
  by (simp add: touches_def index_only_def)

lemma permuted_touches: "permuted h m h' m' \<Longrightarrow> touches (heap_set h) m m'"
  by (simp add: permuted_def touches_def)

lemma ttl_inv_permuted:
  assumes "permuted h m h' m'" "ttl_out h m" "h_size h < SIZE_MAX" "ord_upto (key_at h' m') (h_size h)"
  shows "ttl_inv h' m'"
  using assms by (auto simp: ttl_inv_def permuted_def ttl_out_def)

text \<open>Growing the array keeps the heap and can be refused only when it is full.\<close>

definition can_grow :: "ttl_heap \<Rightarrow> memory \<Rightarrow> bool" where
  "can_grow h m \<longleftrightarrow> h_size h \<noteq> h_capacity h \<or> alloc_ok m (allocs m)"

text \<open>The capacity after an insertion: a full array is doubled, or gets its first 16 cells.\<close>

definition grown_capacity :: "ttl_heap \<Rightarrow> nat" where
  "grown_capacity h =
     (if h_size h < h_capacity h then h_capacity h else if h_capacity h = 0 then 16 else 2 * h_capacity h)"

lemma heap_grow_ok:
  assumes wf: "ttl_wf h m"
  obtains ok h' m' where "heap_grow h m = (ok, h', m')" "ok = can_grow h m"
    "ttl_wf h' m'" "h_size h' = h_size h" "\<And>i. i < h_size h \<Longrightarrow> heap_read h' i = heap_read h i"
    "heap_set h' = heap_set h" "ents m' = ents m" "touches {} m m'"
    "ok \<Longrightarrow> h_size h < h_capacity h'" "\<not> ok \<Longrightarrow> h' = h" "ok \<Longrightarrow> h_capacity h' = grown_capacity h"
proof -
  have len: "length (heap_arr h) = h_capacity h" "h_size h \<le> h_capacity h" using wf by (auto simp: ttl_wf_def)
  obtain ok h' m' where g: "heap_grow h m = (ok, h', m')" by (metis prod_cases3)
  have 1: "ok = can_grow h m" and em: "ents m' = ents m" and t: "touches {} m m'"
    and sz: "h_size h' = h_size h" and nok: "\<not> ok \<Longrightarrow> h' = h"
    and cap: "length (heap_arr h') = h_capacity h'" "h_size h \<le> h_capacity h'" "ok \<Longrightarrow> h_size h < h_capacity h'"
    and rd: "\<And>i. i < h_size h \<Longrightarrow> heap_read h' i = heap_read h i"
    and gc: "ok \<Longrightarrow> h_capacity h' = grown_capacity h"
    using g len touches_alloc [of m]
    by (auto simp: heap_grow_def can_grow_def grown_capacity_def alloc_def touches_def heap_read_def Let_def nth_append
        split: if_splits)
  have "ttl_wf h' m'" using wf cap sz rd em by (auto simp: ttl_wf_def)
  moreover have "heap_set h' = heap_set h" using sz rd by (auto simp: heap_set_def)
  ultimately show ?thesis using that [OF g 1 _ sz rd _ em t cap(3) nok gc] by blast
qed

lemma heap_insert_ok:
  assumes inv: "ttl_inv h m" and e: "ents m e = Some x" "e \<notin> heap_set h"
    and bound: "Suc (h_size h) < SIZE_MAX"
  shows "\<exists>r h' m'. heap_insert h m e = Some (r, h', m') \<and> ttl_inv h' m' \<and>
     r = (if can_grow h m then DB_ERR_OK else DB_ERR_NOMEM) \<and>
     heap_set h' = (if can_grow h m then insert e (heap_set h) else heap_set h) \<and>
     touches (insert e (heap_set h)) m m' \<and>
     (if can_grow h m then h_size h' = Suc (h_size h) \<and> h_capacity h' = grown_capacity h else h' = h \<and> ents m' = ents m)"
proof -
  have wf: "ttl_wf h m" and out: "ttl_out h m" and ord: "ord_upto (key_at h m) (h_size h)"
    using inv by (auto simp: ttl_inv_def)
  obtain ok h1 m1 where g: "heap_grow h m = (ok, h1, m1)" "ok = can_grow h m" "ttl_wf h1 m1"
    "h_size h1 = h_size h" "\<And>i. i < h_size h \<Longrightarrow> heap_read h1 i = heap_read h i"
    "heap_set h1 = heap_set h" "ents m1 = ents m" "touches {} m m1"
    "ok \<Longrightarrow> h_size h < h_capacity h1" "\<not> ok \<Longrightarrow> h1 = h" "ok \<Longrightarrow> h_capacity h1 = grown_capacity h"
    using heap_grow_ok [OF wf] by blast
  show ?thesis
  proof (cases ok)
    case False
    have "key_at h m1 = key_at h m" unfolding key_at_def g(7) ..
    then have "ttl_inv h m1" using inv g(3,7,10) False by (simp add: ttl_inv_def ttl_out_def)
    then show ?thesis using g False by (auto simp: heap_insert_def touches_def)
  next
    case True
    let ?n = "h_size h"
    let ?h = "h1\<lparr>h_size := Suc ?n, heap_arr := (heap_arr h1)[?n := Some e]\<rparr>"
    let ?m = "put_entry m1 e (x\<lparr>e_heap_index := ?n\<rparr>)"
    have len: "?n < length (heap_arr h1)" using g(3,9) True by (simp add: ttl_wf_def)
    have si: "set_index m1 e ?n = Some ?m" using e g(7) by (intro set_index_Some) simp
    have rd: "heap_read ?h i = (if i = ?n then Some e else heap_read h1 i)" for i
      using len by (auto simp: heap_read_def nth_list_update)
    have rdo: "heap_read ?h i = heap_read h i" if "i < ?n" for i
      using rd [of i] g(5) [OF that] that by simp
    have "z \<in> heap_set ?h \<longleftrightarrow> z = e \<or> z \<in> heap_set h" for z
    proof -
      have "z \<in> heap_set ?h \<longleftrightarrow> (\<exists>i<Suc ?n. heap_read ?h i = Some z)" by (simp add: heap_set_def)
      also have "\<dots> \<longleftrightarrow> z = e \<or> (\<exists>i<?n. heap_read ?h i = Some z)"
        using rd [of ?n] by (auto simp: Ex_less_Suc)
      also have "\<dots> \<longleftrightarrow> z = e \<or> (\<exists>i<?n. heap_read h i = Some z)"
        using rdo by metis
      finally show ?thesis by (simp add: heap_set_def)
    qed
    then have hs: "heap_set ?h = insert e (heap_set h)" by blast
    have wf1: "ttl_wf ?h ?m"
      unfolding ttl_wf_def
    proof (intro conjI allI impI)
      fix i assume i: "i < h_size ?h"
      show "\<exists>a y. heap_read ?h i = Some a \<and> ents ?m a = Some y \<and> e_heap_index y = i"
      proof (cases "i = ?n")
        case False
        then have "i < ?n" using i by simp
        then obtain a y where a: "heap_read h i = Some a" "ents m a = Some y" "e_heap_index y = i"
          using ttl_wfD [OF wf] by blast
        then have "a \<noteq> e" using e(2) \<open>i < ?n\<close> by (auto simp: heap_set_def)
        then show ?thesis using a False rd g(5) [OF \<open>i < ?n\<close>] g(7) by auto
      qed (simp add: rd)
    qed (use g(3,4,9) True in \<open>auto simp: ttl_wf_def\<close>)
    have keys: "key_at ?h ?m j = key_at h m j" if "j < ?n" for j
    proof -
      obtain a where "heap_read h j = Some a" using ttl_wfD [OF wf \<open>j < ?n\<close>] by blast
      then show ?thesis using that rd g(5) e(2) g(7) by (auto simp: key_at_def heap_set_def)
    qed
    have "up_ok (key_at ?h ?m) (h_size ?h) ?n" using up_ok_last [OF ord keys] by simp
    then obtain h2 m2 where r: "shift_up ?h ?m ?n = Some (h2, m2)" "permuted ?h ?m h2 m2"
      "ord_upto (key_at h2 m2) (h_size ?h)"
      using shift_up_ok [OF wf1, of ?n] by auto
    have out1: "ttl_out ?h ?m" using out hs g(7) by (auto simp: ttl_out_def)
    have "ttl_inv h2 m2" using ttl_inv_permuted [OF r(2) out1 _ r(3)] bound by simp
    moreover have "touches (insert e (heap_set h)) m m2"
    proof -
      have "touches {e} m1 ?m" using e g(7) by (intro touches_put) simp
      then have "touches (insert e (heap_set h)) m ?m" using touches_trans [OF g(8)] by blast
      then show ?thesis using touches_trans permuted_touches [OF r(2)] hs by blast
    qed
    moreover have "heap_insert h m e = Some (DB_ERR_OK, h2, m2)"
      using g(1,4) True len si r(1) by (simp add: heap_insert_def)
    moreover have "heap_set h2 = insert e (heap_set h)" using r(2) hs by (simp add: permuted_def)
    moreover have "h_size h2 = Suc ?n" "h_capacity h2 = grown_capacity h" using r(2) g(11) True by (simp_all add: permuted_def)
    ultimately show ?thesis using True g(2) by simp
  qed
qed

lemma swap_out_last:
  assumes wf: "ttl_wf h m" and i: "i < h_size h" and e: "heap_read h i = Some e"
  obtains h1 m1 where "swap_nodes h m i (h_size h - 1) = Some (h1, m1)" "permuted h m h1 m1"
    "heap_read h1 (h_size h - 1) = Some e"
    "\<And>j. j < h_size h \<Longrightarrow> key_at h1 m1 j = key_at h m (swp i (h_size h - 1) j)"
proof -
  have l: "h_size h - 1 < h_size h" using i by simp
  obtain h1 m1 where s: "swap_nodes h m i (h_size h - 1) = Some (h1, m1)" "permuted h m h1 m1"
    "\<forall>j<h_size h. heap_read h1 j = heap_read h (swp i (h_size h - 1) j)"
    using swap_nodes_ok [OF wf i l] by blast
  have "heap_read h1 (h_size h - 1) = Some e" using s(3) l e by (simp add: swp_def)
  then show ?thesis using that [OF s(1,2)] key_at_swap [OF s(2)] s(3) by blast
qed

text \<open>After the swap and the cut, the keys of the remaining positions.\<close>

lemma key_at_size [simp]: "key_at (h\<lparr>h_size := n\<rparr>) m = key_at h m"
  by (simp add: key_at_def heap_read_def fun_eq_iff)

lemma heap_pop_ok:
  assumes inv: "ttl_inv h m" and n: "0 < h_size h"
  shows "\<exists>a h' m'. heap_pop h m = Some (Some a, h', m') \<and> heap_read h 0 = Some a \<and> ttl_inv h' m' \<and>
    heap_set h' = heap_set h - {a} \<and> touches (heap_set h) m m'"
proof -
  have wf: "ttl_wf h m" and out: "ttl_out h m" and ord: "ord_upto (key_at h m) (h_size h)"
    and bd: "h_size h < SIZE_MAX" using inv by (auto simp: ttl_inv_def)
  let ?n = "h_size h - 1"
  obtain a x where a: "heap_read h 0 = Some a" "ents m a = Some x" using ttl_wfD [OF wf n] by blast
  obtain h1 m1 where sw: "swap_nodes h m 0 ?n = Some (h1, m1)" "permuted h m h1 m1"
    "heap_read h1 ?n = Some a" "\<And>j. j < h_size h \<Longrightarrow> key_at h1 m1 j = key_at h m (swp 0 ?n j)"
    using swap_out_last [OF wf n a(1)] by blast
  have sz: "h_size h1 = h_size h" and wf1: "ttl_wf h1 m1" and hs1: "heap_set h1 = heap_set h"
    using sw(2) by (auto simp: permuted_def)
  let ?h2 = "h1\<lparr>h_size := h_size h1 - 1\<rparr>"
  have wf2: "ttl_wf ?h2 m1" and hs2: "heap_set ?h2 = heap_set h - {a}"
    using cut_last [OF wf1] sz n sw(3) hs1 by auto
  obtain h3 m3 where r: "(if 0 < h_size ?h2 then heapify ?h2 m1 0 else Some (?h2, m1)) = Some (h3, m3)"
    "permuted ?h2 m1 h3 m3" "ord_upto (key_at h3 m3) ?n"
  proof (cases "0 < ?n")
    case True
    have "down_ok (key_at ?h2 m1) ?n 0"
      using moved_down [of "key_at h m" ?n 0 "key_at ?h2 m1"] ord True sw(4) n by simp
    then show ?thesis using heapify_ok [OF wf2, of 0] True that sz by auto
  next
    case False
    then show ?thesis using that permuted_refl [OF wf2] sz by (auto simp: ord_upto_def)
  qed
  have hs3: "heap_set h3 = heap_set h - {a}" and wf3: "ttl_wf h3 m3" and sz3: "h_size h3 = ?n"
    using r(2) hs2 sz by (auto simp: permuted_def)
  have t3: "touches (heap_set h) m m3"
    using touches_trans [OF permuted_touches [OF sw(2)] permuted_touches [OF r(2)], of "heap_set h"] hs2 by blast
  obtain y where y: "ents m3 a = Some y"
    using index_only_fields [OF touches_index_only [OF t3] a(2)] by blast
  let ?m4 = "put_entry m3 a (y\<lparr>e_heap_index := SIZE_MAX\<rparr>)"
  have run: "heap_pop h m = Some (Some a, h3, ?m4)"
    using n a(1) sw(1) r(1) set_index_Some [OF y] by (simp add: heap_pop_def Let_def del: One_nat_def)
  have ain: "a \<in> heap_set h" using a(1) n by (auto simp: heap_set_def)
  have t4: "touches (heap_set h) m ?m4" using touches_trans [OF t3 touches_put [OF y]] ain by blast
  have "ttl_out h3 ?m4"
    using out t3 hs3 by (auto simp: ttl_out_def touches_def)
  moreover have "ttl_wf h3 ?m4" using put_index_outside [OF wf3 y] hs3 by simp
  moreover have "ord_upto (key_at h3 ?m4) (h_size h3)"
    using r(3) sz3 key_at_index_only [OF index_only_put [OF y]] by (simp add: ord_upto_def)
  ultimately have "ttl_inv h3 ?m4" using bd sz3 by (simp add: ttl_inv_def)
  then show ?thesis using run a(1) hs3 t4 by blast
qed

lemma heap_remove_absent:
  assumes "ttl_inv h m" "ents m e = Some x" "e \<notin> heap_set h"
  shows "heap_remove h m e = Some (DB_ERR_KEY_NOTEXIST, h, m)"
proof -
  have "e_heap_index x = SIZE_MAX" using assms heap_index_iff by blast
  then show ?thesis using assms(1,2) by (simp add: heap_remove_def ttl_inv_def)
qed

lemma heap_remove_ok:
  assumes inv: "ttl_inv h m" and e: "ents m e = Some x" "e \<in> heap_set h"
  shows "\<exists>h' m'. heap_remove h m e = Some (DB_ERR_OK, h', m') \<and> ttl_inv h' m' \<and>
    heap_set h' = heap_set h - {e} \<and> touches (heap_set h) m m'"
proof -
  have wf: "ttl_wf h m" and out: "ttl_out h m" and ord: "ord_upto (key_at h m) (h_size h)"
    and bd: "h_size h < SIZE_MAX" using inv by (auto simp: ttl_inv_def)
  let ?i = "e_heap_index x" and ?n = "h_size h - 1"
  have i: "?i < h_size h" and ri: "heap_read h ?i = Some e"
    using heap_set_live [OF wf e(2)] e(1) by auto
  have head: "heap_remove h m e = (if ?i = ?n then do {
      m1 \<leftarrow> set_index m e SIZE_MAX; Some (DB_ERR_OK, h\<lparr>h_size := ?n\<rparr>, m1) }
    else do {
      (h1, m1) \<leftarrow> swap_nodes h m ?i ?n;
      m2 \<leftarrow> set_index m1 e SIZE_MAX;
      let h2 = h1\<lparr>h_size := h_size h1 - 1\<rparr>;
      up \<leftarrow> (if 0 < ?i then compare_at h2 m2 ?i (PARENT ?i) else Some False);
      (h3, m3) \<leftarrow> (if up then shift_up h2 m2 ?i else heapify h2 m2 ?i);
      Some (DB_ERR_OK, h3, m3) })"
    using e(1) i ri by (simp add: heap_remove_def Let_def del: One_nat_def)
  show ?thesis
  proof (cases "?i = ?n")
    case True
    let ?h = "h\<lparr>h_size := ?n\<rparr>" and ?m = "put_entry m e (x\<lparr>e_heap_index := SIZE_MAX\<rparr>)"
    have w: "ttl_wf ?h m" and hs: "heap_set ?h = heap_set h - {e}"
      using cut_last [OF wf _ ri [unfolded True]] i by auto
    have w': "ttl_wf ?h ?m" using put_index_outside [OF w e(1)] hs by simp
    have "ord_upto (key_at ?h ?m) ?n"
      using ord key_at_index_only [OF index_only_put [OF e(1)]] by (simp add: ord_upto_def)
    moreover have "ttl_out ?h ?m" using out hs by (auto simp: ttl_out_def)
    ultimately have "ttl_inv ?h ?m" using w' bd by (simp add: ttl_inv_def)
    then show ?thesis
      using head True set_index_Some [OF e(1)] hs e(2) touches_put [OF e(1), of SIZE_MAX]
      by (auto simp: touches_def)
  next
    case False
    obtain h1 m1 where sw: "swap_nodes h m ?i ?n = Some (h1, m1)" "permuted h m h1 m1"
      "heap_read h1 ?n = Some e" "\<And>j. j < h_size h \<Longrightarrow> key_at h1 m1 j = key_at h m (swp ?i ?n j)"
      using swap_out_last [OF wf i ri] by blast
    have sz: "h_size h1 = h_size h" and wf1: "ttl_wf h1 m1" and hs1: "heap_set h1 = heap_set h"
      using sw(2) by (auto simp: permuted_def)
    let ?h2 = "h1\<lparr>h_size := h_size h1 - 1\<rparr>"
    have wf2: "ttl_wf ?h2 m1" and hs2: "heap_set ?h2 = heap_set h - {e}"
      using cut_last [OF wf1] sz i sw(3) hs1 by auto
    obtain y where y: "ents m1 e = Some y"
      using index_only_fields [OF touches_index_only [OF permuted_touches [OF sw(2)]] e(1)] by blast
    let ?m2 = "put_entry m1 e (y\<lparr>e_heap_index := SIZE_MAX\<rparr>)"
    have w2: "ttl_wf ?h2 ?m2" using put_index_outside [OF wf2 y] hs2 by simp
    have k2: "key_at ?h2 ?m2 j = key_at h m (swp ?i ?n j)" if "j < ?n" for j
      using sw(4) [of j] that key_at_index_only [OF index_only_put [OF y]] by simp
    have t2: "touches (heap_set h) m ?m2"
      using touches_trans [OF permuted_touches [OF sw(2)] touches_put [OF y]] e(2) by blast
    have out2: "ttl_out ?h2 ?m2" using out t2 hs2 by (auto simp: ttl_out_def touches_def)
    have o: "ord_upto (key_at h m) (Suc ?n)" and lt: "?i < ?n" using ord i False by auto
    define up where "up \<longleftrightarrow> 0 < ?i \<and> key_at ?h2 ?m2 ?i \<le> key_at ?h2 ?m2 (PARENT ?i)"
    have c: "(if 0 < ?i then compare_at ?h2 ?m2 ?i (PARENT ?i) else Some False) = Some up"
      using compare_at_eq [OF w2, of ?i "PARENT ?i"] lt sz PARENT_less [of ?i] by (auto simp: up_def)
    obtain h3 m3 where r: "(if up then shift_up ?h2 ?m2 ?i else heapify ?h2 ?m2 ?i) = Some (h3, m3)"
      "permuted ?h2 ?m2 h3 m3" "ord_upto (key_at h3 m3) ?n"
    proof (cases up)
      case True
      then have "up_ok (key_at ?h2 ?m2) (h_size ?h2) ?i"
        using moved_up [OF o _ lt k2] sz by (auto simp: up_def)
      then show ?thesis using shift_up_ok [OF w2, of ?i] lt sz True that by auto
    next
      case False
      then have "down_ok (key_at ?h2 ?m2) (h_size ?h2) ?i"
        using moved_down [OF o lt k2] sz by (auto simp: up_def)
      then show ?thesis using heapify_ok [OF w2, of ?i] lt sz False that by auto
    qed
    have "ttl_inv h3 m3" using ttl_inv_permuted [OF r(2) out2] r(3) sz bd by simp
    moreover have "heap_remove h m e = Some (DB_ERR_OK, h3, m3)"
      using head False sw(1) set_index_Some [OF y] c r(1) by (simp add: Let_def del: One_nat_def)
    moreover have "heap_set h3 = heap_set h - {e}" using r(2) hs2 by (simp add: permuted_def)
    moreover have "touches (heap_set h) m m3"
      using touches_trans [OF t2 permuted_touches [OF r(2)]] hs2 by blast
    ultimately show ?thesis by blast
  qed
qed

section \<open>The heap as an expiry queue\<close>

definition entry_live :: "memory \<Rightarrow> addr \<Rightarrow> bool" where
  "entry_live m a \<longleftrightarrow> ents m a \<noteq> None"

definition entry_key :: "memory \<Rightarrow> addr \<Rightarrow> int" where
  "entry_key m a = (case ents m a of None \<Rightarrow> 0 | Some e \<Rightarrow> e_expiry e)"

definition heap_fits :: "ttl_heap \<Rightarrow> bool" where
  "heap_fits h \<longleftrightarrow> Suc (h_size h) < SIZE_MAX"

lemma key_at_entry_key: "heap_read h i = Some a \<Longrightarrow> key_at h m i = entry_key m a"
  by (simp add: key_at_def entry_key_def)

lemma heap_set_finite: "finite (heap_set h)"
proof -
  have "heap_set h \<subseteq> (\<lambda>i. the (heap_read h i)) ` {..<h_size h}"
    by (force simp: heap_set_def)
  then show ?thesis by (rule finite_subset) simp
qed

lemma heap_set_empty: "ttl_wf h m \<Longrightarrow> heap_set h = {} \<longleftrightarrow> h_size h = 0"
  using heap_set_card [of h m] heap_set_finite [of h] by auto

lemma heap_pop_min:
  assumes inv: "ttl_inv h m" and ne: "heap_set h \<noteq> {}"
  shows "\<exists>a h' m'. heap_pop h m = Some (Some a, h', m') \<and> a \<in> heap_set h \<and>
    (\<forall>b\<in>heap_set h. entry_key m a \<le> entry_key m b) \<and> ttl_inv h' m' \<and>
    heap_set h' = heap_set h - {a} \<and> touches (heap_set h) m m'"
proof -
  have n: "0 < h_size h" using ne heap_set_empty inv by (auto simp: ttl_inv_def)
  from heap_pop_ok [OF inv n] obtain a h' m' where p: "heap_pop h m = Some (Some a, h', m')"
    "heap_read h 0 = Some a" "ttl_inv h' m'" "heap_set h' = heap_set h - {a}" "touches (heap_set h) m m'" by blast
  have "entry_key m a \<le> entry_key m b" if "b \<in> heap_set h" for b
  proof -
    from that obtain i where "i < h_size h" "heap_read h i = Some b" by (auto simp: heap_set_def)
    then show ?thesis using ord_upto_min [of "key_at h m" "h_size h" i] inv p(2)
      by (simp add: ttl_inv_def key_at_entry_key)
  qed
  moreover have "a \<in> heap_set h" using p(2) n by (auto simp: heap_set_def)
  ultimately show ?thesis using p by blast
qed

interpretation ttlq: expiry_queue ttl_inv heap_set entry_live entry_key index_only heap_fits can_grow
  heap_insert heap_remove heap_pop
proof (unfold_locales, goal_cases)
  case 1 then show ?case by (rule index_only_refl)
next
  case 2 then show ?case by (rule index_only_trans)
next
  case 3 then show ?case by (simp add: entry_live_def index_only_dom)
next
  case (4 m m' a)
  then obtain e where "ents m a = Some e" by (auto simp: entry_live_def)
  then show ?case using index_only_fields [OF 4(1)] by (fastforce simp: entry_key_def)
next
  case 5 then show ?case using heap_set_live by (fastforce simp: ttl_inv_def entry_live_def)
next
  case 6 show ?case by (rule heap_set_finite)
next
  case (7 h m a)
  then obtain x where "ents m a = Some x" by (auto simp: entry_live_def)
  from heap_insert_ok [OF 7(1) this 7(3)] 7(4) show ?case
    using touches_index_only by (fastforce simp: heap_fits_def)
next
  case (8 h m a)
  then obtain x where "ents m a = Some x" using heap_set_live by (fastforce simp: ttl_inv_def)
  from heap_remove_ok [OF 8(1) this 8(2)] show ?case using touches_index_only by blast
next
  case (9 h m a) then show ?case using heap_remove_absent by (auto simp: entry_live_def)
next
  case (10 h m)
  then have "h_size h = 0" using heap_set_empty [of h m] by (auto simp: ttl_inv_def)
  then show ?case by (simp add: heap_pop_def)
next
  case (11 h m)
  from heap_pop_min [OF this] obtain a h' m' where p: "heap_pop h m = Some (Some a, h', m')"
    "a \<in> heap_set h" "\<forall>b\<in>heap_set h. entry_key m a \<le> entry_key m b" "ttl_inv h' m'"
    "heap_set h' = heap_set h - {a}" "touches (heap_set h) m m'" by blast
  show ?case by (intro exI conjI) (rule p(1) p(2) p(3) p(4) p(5) touches_index_only [OF p(6)])+
qed

end
