(* ===== verification/Table.thy ===== *)
theory Table
  imports Hash Ttl_Proof
begin

text \<open>
  The shape of the table on the store of entries: what the three list walks of
  \<open>hash.c\<close> find, the invariant of the buckets, and how each kind of update of the
  store (a field, a new node, an unlinked node) keeps it.
\<close>

section \<open>Linked lists in the store\<close>

type_synonym store = "addr \<Rightarrow> Entry option"

text \<open>\<open>seg st p as q\<close>: following \<open>next\<close> from \<open>p\<close> visits \<open>as\<close> and arrives at \<open>q\<close>.\<close>

primrec seg :: "store \<Rightarrow> addr option \<Rightarrow> addr list \<Rightarrow> addr option \<Rightarrow> bool" where
  "seg st p [] q \<longleftrightarrow> p = q"
| "seg st p (a # as) q \<longleftrightarrow> p = Some a \<and> (\<exists>e. st a = Some e \<and> seg st (e_next e) as q)"

abbreviation key_of :: "store \<Rightarrow> addr \<Rightarrow> string" where
  "key_of st a \<equiv> e_key (the (st a))"

lemma seg_append [simp]: "seg st p (as @ bs) q \<longleftrightarrow> (\<exists>r. seg st p as r \<and> seg st r bs q)"
  by (induction as arbitrary: p) auto

lemma seg_dom: "seg st p as q \<Longrightarrow> a \<in> set as \<Longrightarrow> \<exists>e. st a = Some e"
  by (induction as arbitrary: p) auto

lemma seg_cong:
  assumes "\<And>a. a \<in> set as \<Longrightarrow> map_option e_next (st' a) = map_option e_next (st a)"
  shows "seg st' p as q \<longleftrightarrow> seg st p as q"
  using assms
proof (induction as arbitrary: p)
  case (Cons a as)
  then have "map_option e_next (st' a) = map_option e_next (st a)" by simp
  with Cons show ?case by (cases "st a"; cases "st' a") auto
qed simp

lemma seg_upd: "x \<notin> set as \<Longrightarrow> seg (st(x := v)) p as q \<longleftrightarrow> seg st p as q"
  by (rule seg_cong) auto

text \<open>The three walks on a null-terminated list.\<close>

lemma find_entry_seg:
  assumes "seg st p as None"
  shows "find_entry st p k = Some (find (\<lambda>a. key_of st a = k) as)"
  using assms by (induction as arbitrary: p) (auto simp: find_entry.simps)

lemma find_prev_seg:
  assumes "seg st p (xs @ a # ys) None" "\<forall>x\<in>set xs. key_of st x \<noteq> k" "key_of st a = k"
  shows "find_prev st prev p k = Some (if xs = [] then prev else Some (last xs), Some a)"
  using assms
proof (induction xs arbitrary: p prev)
  case Nil
  then show ?case by (auto simp: find_prev.simps)
next
  case (Cons x xs)
  then obtain e where e: "p = Some x" "st x = Some e" "seg st (e_next e) (xs @ a # ys) None" by auto
  then have "e_key e \<noteq> k" using Cons.prems by auto
  then show ?case using e Cons.IH [OF e(3), of "Some x"] Cons.prems by (simp add: find_prev.simps)
qed

lemma find_prev_miss:
  assumes "seg st p as None" "\<forall>x\<in>set as. key_of st x \<noteq> k"
  shows "\<exists>q. find_prev st prev p k = Some (q, None)"
  using assms
proof (induction as arbitrary: p prev)
  case Nil
  then show ?case by (auto simp: find_prev.simps)
next
  case (Cons x xs)
  then obtain e where e: "p = Some x" "st x = Some e" "seg st (e_next e) xs None" by auto
  then have "e_key e \<noteq> k" using Cons.prems by auto
  then show ?case using e Cons.IH [OF e(3), of "Some x"] Cons.prems by (simp add: find_prev.simps)
qed

lemma find_last_hit:
  assumes "seg st (Some h) (xs @ a # ys) None" "\<forall>x\<in>set xs. key_of st x \<noteq> k" "key_of st a = k"
  shows "find_last st h k = Some a"
  using assms
proof (induction xs arbitrary: h)
  case Nil
  then show ?case by (auto simp: find_last.simps split: option.splits)
next
  case (Cons x xs)
  then obtain e where e: "h = x" "st x = Some e" "seg st (e_next e) (xs @ a # ys) None" by auto
  then obtain b where b: "e_next e = Some b" by (cases xs) auto
  have "e_key e \<noteq> k" using e Cons.prems by auto
  then show ?case using e b Cons by (simp add: find_last.simps [of st x])
qed

lemma find_last_miss:
  assumes "seg st (Some h) as None" "\<forall>x\<in>set as. key_of st x \<noteq> k"
  shows "find_last st h k = Some (last as)"
  using assms
proof (induction as arbitrary: h)
  case (Cons x xs)
  then obtain e where e: "h = x" "st x = Some e" "seg st (e_next e) xs None" by auto
  have "e_key e \<noteq> k" using e Cons.prems by auto
  then show ?case using e Cons by (cases xs) (auto simp: find_last.simps [of st x])
qed simp

section \<open>The buckets\<close>

text \<open>
  Bucket \<open>i\<close> is a list of exactly the entries of the store whose key hashes to \<open>i\<close>,
  with no key twice. Lists of different buckets are then disjoint, and no entry is lost.
\<close>

definition in_bucket :: "store \<Rightarrow> nat \<Rightarrow> addr set" where
  "in_bucket st i = {a. \<exists>e. st a = Some e \<and> string_folding_hash (e_key e) = i}"

definition bucket_list :: "store \<Rightarrow> nat \<Rightarrow> addr option \<Rightarrow> addr list \<Rightarrow> bool" where
  "bucket_list st i p as \<longleftrightarrow> seg st p as None \<and> set as = in_bucket st i \<and> distinct (map (key_of st) as)"

definition table_ok :: "store \<Rightarrow> addr option list \<Rightarrow> bool" where
  "table_ok st B \<longleftrightarrow> length B = MOD \<and> (\<forall>i<MOD. \<exists>as. bucket_list st i (B ! i) as)"

lemma hash_less [simp]: "string_folding_hash k < MOD"
  by (simp add: string_folding_hash_def MOD_def)

lemma table_okD: "table_ok st B \<Longrightarrow> i < MOD \<Longrightarrow> \<exists>as. bucket_list st i (B ! i) as"
  by (simp add: table_ok_def)

lemma table_list:
  assumes "table_ok st B"
  obtains as where "bucket_list st (string_folding_hash k) (B ! string_folding_hash k) as"
  using that table_okD [OF assms hash_less] by blast

lemma in_bucket_key: "st a = Some e \<Longrightarrow> e_key e = k \<Longrightarrow> a \<in> in_bucket st (string_folding_hash k)"
  by (auto simp: in_bucket_def)

lemma key_unique:
  assumes "table_ok st B" "st a = Some e" "st b = Some f" "e_key e = e_key f"
  shows "a = b"
proof -
  obtain as where "bucket_list st (string_folding_hash (e_key e)) (B ! string_folding_hash (e_key e)) as"
    using table_list [OF assms(1)] by blast
  then have "a \<in> set as" "b \<in> set as" "distinct (map (key_of st) as)"
    using assms by (auto simp: bucket_list_def in_bucket_def)
  then show ?thesis using assms by (intro distinct_map_inj [of "key_of st" as]) auto
qed

lemma find_entry_hit:
  assumes "table_ok st B" "st a = Some e" "e_key e = k"
  shows "find_entry st (B ! string_folding_hash k) k = Some (Some a)"
proof -
  obtain as where l: "bucket_list st (string_folding_hash k) (B ! string_folding_hash k) as"
    using table_list [OF assms(1)] by blast
  then have "a \<in> set as" using assms by (auto simp: bucket_list_def in_bucket_def)
  then obtain b where b: "find (\<lambda>a. key_of st a = k) as = Some b" "key_of st b = k" "b \<in> set as"
    using assms by (cases "find (\<lambda>a. key_of st a = k) as") (auto simp: find_None_iff find_Some_iff)
  then obtain f where "st b = Some f" using l seg_dom by (metis bucket_list_def)
  then have "b = a" using key_unique [OF assms(1), of b f a e] b(2) assms by simp
  then show ?thesis using find_entry_seg [of st _ as k] l b by (simp add: bucket_list_def)
qed

lemma find_entry_miss:
  assumes "table_ok st B" "\<And>a e. st a = Some e \<Longrightarrow> e_key e \<noteq> k"
  shows "find_entry st (B ! string_folding_hash k) k = Some None"
proof -
  obtain as where l: "bucket_list st (string_folding_hash k) (B ! string_folding_hash k) as"
    using table_list [OF assms(1)] by blast
  then have "\<forall>a\<in>set as. key_of st a \<noteq> k" using assms(2) seg_dom by (fastforce simp: bucket_list_def)
  then have "find (\<lambda>a. key_of st a = k) as = None" by (auto simp: find_None_iff)
  then show ?thesis using find_entry_seg [of st _ as k] l by (simp add: bucket_list_def)
qed

text \<open>An update that keeps keys and links keeps the table.\<close>

lemma bucket_list_cong:
  assumes "\<And>a. map_option (\<lambda>e. (e_key e, e_next e)) (st' a) = map_option (\<lambda>e. (e_key e, e_next e)) (st a)"
  shows "bucket_list st' i p as \<longleftrightarrow> bucket_list st i p as"
proof -
  have n: "map_option e_next (st' a) = map_option e_next (st a)" for a
    using assms [of a] by (cases "st a"; cases "st' a") auto
  have k: "map_option e_key (st' a) = map_option e_key (st a)" for a
    using assms [of a] by (cases "st a"; cases "st' a") auto
  have "(\<exists>e. st' a = Some e \<and> string_folding_hash (e_key e) = i) \<longleftrightarrow>
      (\<exists>e. st a = Some e \<and> string_folding_hash (e_key e) = i)" for a
    using k [of a] by (cases "st a"; cases "st' a") auto
  then have "in_bucket st' i = in_bucket st i" by (simp add: in_bucket_def)
  moreover have "seg st' p as None \<longleftrightarrow> seg st p as None" using n by (intro seg_cong)
  moreover have "map (key_of st') as = map (key_of st) as" if sg: "seg st p as None"
  proof (rule map_cong [OF refl])
    fix a assume "a \<in> set as"
    then obtain e where "st a = Some e" using seg_dom [OF sg] by blast
    then show "key_of st' a = key_of st a" using k [of a] by auto
  qed
  ultimately show ?thesis unfolding bucket_list_def by metis
qed

lemma table_ok_cong:
  assumes "\<And>a. map_option (\<lambda>e. (e_key e, e_next e)) (st' a) = map_option (\<lambda>e. (e_key e, e_next e)) (st a)"
  shows "table_ok st' B \<longleftrightarrow> table_ok st B"
proof -
  have "bucket_list st' i p as \<longleftrightarrow> bucket_list st i p as" for i p as
    by (rule bucket_list_cong) (rule assms)
  then show ?thesis by (simp add: table_ok_def)
qed

lemma table_ok_same:
  "table_ok st B \<Longrightarrow> st a = Some e \<Longrightarrow> e_key e' = e_key e \<Longrightarrow> e_next e' = e_next e \<Longrightarrow> table_ok (st(a \<mapsto> e')) B"
  by (subst table_ok_cong) auto

lemma table_ok_index_only:
  assumes "index_only m m'" "table_ok (ents m) B"
  shows "table_ok (ents m') B"
proof (subst table_ok_cong)
  fix a
  show "map_option (\<lambda>e. (e_key e, e_next e)) (ents m' a) = map_option (\<lambda>e. (e_key e, e_next e)) (ents m a)"
    using index_only_fields [OF assms(1), of a] index_only_dom [OF assms(1), of a]
    by (cases "ents m a") auto
qed (rule assms(2))

section \<open>New and unlinked nodes\<close>

text \<open>The first node of an empty bucket.\<close>

lemma table_ok_first:
  assumes t: "table_ok st B" and e: "st e = None" and x: "e_next x = None"
    and k: "string_folding_hash (e_key x) = idx" and B: "B ! idx = None"
  shows "table_ok (st(e \<mapsto> x)) (B[idx := Some e])"
  unfolding table_ok_def
proof (intro conjI allI impI)
  show "length (B[idx := Some e]) = MOD" using t by (simp add: table_ok_def)
  fix i assume i: "i < MOD"
  obtain as where l: "bucket_list st i (B ! i) as" using table_okD [OF t i] by blast
  have e_as: "e \<notin> set as" using l e seg_dom by (fastforce simp: bucket_list_def)
  show "\<exists>as. bucket_list (st(e \<mapsto> x)) i (B[idx := Some e] ! i) as"
  proof (cases "i = idx")
    case True
    then have "as = []" using l B by (cases as) (auto simp: bucket_list_def)
    then have "in_bucket st i = {}" using l by (simp add: bucket_list_def)
    then have "in_bucket (st(e \<mapsto> x)) i = {e}" using k True by (auto simp: in_bucket_def split: if_splits)
    moreover have "idx < length B" using t i True by (simp add: table_ok_def)
    ultimately have "bucket_list (st(e \<mapsto> x)) i (B[idx := Some e] ! i) [e]"
      using x True by (simp add: bucket_list_def)
    then show ?thesis by blast
  next
    case False
    have "in_bucket (st(e \<mapsto> x)) i = in_bucket st i" using k False e by (auto simp: in_bucket_def)
    moreover have "map (key_of (st(e \<mapsto> x))) as = map (key_of st) as" using e_as by auto
    ultimately have "bucket_list (st(e \<mapsto> x)) i (B[idx := Some e] ! i) as"
      using l False e_as seg_upd [OF e_as] by (simp add: bucket_list_def del: map_eq_conv)
    then show ?thesis by blast
  qed
qed

text \<open>A node appended to the last one of its bucket.\<close>

lemma table_ok_append:
  assumes t: "table_ok st B" and e: "st e = None" and x: "e_next x = None"
    and k: "string_folding_hash (e_key x) = idx" and idx: "idx < MOD"
    and l: "bucket_list st idx (B ! idx) as" "as \<noteq> []" and y: "st (last as) = Some y"
    and new: "\<forall>a\<in>set as. key_of st a \<noteq> e_key x"
  shows "table_ok (st(e \<mapsto> x, last as \<mapsto> y\<lparr>e_next := Some e\<rparr>)) B"
  unfolding table_ok_def
proof (intro conjI allI impI)
  let ?st = "st(e \<mapsto> x, last as \<mapsto> y\<lparr>e_next := Some e\<rparr>)"
  show "length B = MOD" using t by (simp add: table_ok_def)
  have ne: "last as \<noteq> e" using e y by auto
  have key: "a \<noteq> e \<Longrightarrow> map_option e_key (?st a) = map_option e_key (st a)" for a using y by simp
  fix i assume i: "i < MOD"
  have sub: "a \<in> in_bucket ?st i \<longleftrightarrow> a \<in> in_bucket st i \<or> (a = e \<and> i = idx)" for a
  proof (cases "a = e")
    case True then show ?thesis using e k ne by (auto simp: in_bucket_def)
  next
    case False
    then show ?thesis using key [OF False] by (cases "st a") (auto simp: in_bucket_def y)
  qed
  show "\<exists>as. bucket_list ?st i (B ! i) as"
  proof (cases "i = idx")
    case True
    obtain bs z where bs: "as = bs @ [z]" using l(2) by (cases as rule: rev_cases) auto
    have z: "last as = z" using bs by simp
    have d: "distinct as" using l(1) by (auto simp: bucket_list_def distinct_map)
    have e_as: "e \<notin> set as" using l(1) e seg_dom by (fastforce simp: bucket_list_def)
    have nb: "z \<notin> set bs" "e \<notin> set bs" "z \<noteq> e" using d bs e_as by auto
    have "seg st (B ! idx) bs (Some z)" using l(1) bs by (auto simp: bucket_list_def)
    then have "seg ?st (B ! idx) bs (Some z)" using seg_upd nb z by simp
    then have "seg ?st (B ! idx) (bs @ [z, e]) None" using nb z x by simp
    moreover have "set (bs @ [z, e]) = in_bucket ?st i"
    proof -
      have "set (bs @ [z, e]) = insert e (in_bucket st i)"
        using l(1) bs True by (auto simp: bucket_list_def)
      then show ?thesis using sub True by blast
    qed
    moreover have "distinct (map (key_of ?st) (bs @ [z, e]))"
    proof -
      have "map (key_of ?st) (bs @ [z]) = map (key_of st) (bs @ [z])"
        using nb y z by (auto intro!: map_cong)
      then have keys: "map (key_of ?st) (bs @ [z, e]) = map (key_of st) as @ [e_key x]"
        using nb z bs by simp
      have "distinct (map (key_of st) as @ [e_key x])" using l(1) new by (auto simp: bucket_list_def)
      then show ?thesis unfolding keys .
    qed
    ultimately show ?thesis using True unfolding bucket_list_def by blast
  next
    case False
    obtain cs where c: "bucket_list st i (B ! i) cs" using table_okD [OF t i] by blast
    have "last as \<in> in_bucket st idx"
      using last_in_set [OF l(2)] l(1) unfolding bucket_list_def by blast
    then have n1: "last as \<notin> set cs" using c False by (auto simp: bucket_list_def in_bucket_def)
    have n2: "e \<notin> set cs" using c e seg_dom by (fastforce simp: bucket_list_def)
    have "seg ?st (B ! i) cs None" using c n1 n2 seg_upd by (simp add: bucket_list_def)
    moreover have "in_bucket ?st i = in_bucket st i" using sub False by blast
    moreover have "map (key_of ?st) cs = map (key_of st) cs" using n1 n2 by auto
    ultimately have "bucket_list ?st i (B ! i) cs" using c unfolding bucket_list_def by metis
    then show ?thesis by blast
  qed
qed

text \<open>
  A node unlinked and freed: its predecessor in the list, or the bucket when it was the
  first, takes over its successor.
\<close>

definition unlink :: "store \<Rightarrow> addr option list \<Rightarrow> nat \<Rightarrow> addr option \<Rightarrow> addr \<Rightarrow> store \<times> addr option list" where
  "unlink st B idx prev c =
     (case st c of None \<Rightarrow> (st, B) | Some x \<Rightarrow>
       (case prev of
          None \<Rightarrow> (st, B[idx := e_next x])
        | Some p \<Rightarrow> (case st p of None \<Rightarrow> (st, B) | Some y \<Rightarrow> (st(p \<mapsto> y\<lparr>e_next := e_next x\<rparr>), B))))"

lemma table_ok_unlink:
  assumes t: "table_ok st B" and idx: "idx < MOD"
    and l: "bucket_list st idx (B ! idx) (xs @ c # ys)"
    and u: "unlink st B idx (if xs = [] then None else Some (last xs)) c = (st', B')"
  shows "table_ok (st'(c := None)) B'"
  unfolding table_ok_def
proof (intro conjI allI impI)
  let ?st = "st'(c := None)"
  have d: "distinct (xs @ c # ys)" using l by (auto simp: bucket_list_def distinct_map)
  have sgl: "seg st (B ! idx) (xs @ c # ys) None" using l unfolding bucket_list_def by blast
  obtain x where x: "st c = Some x" using seg_dom [OF sgl, of c] by auto
  have len: "length B = MOD" using t by (simp add: table_ok_def)
  have cs: "seg st (Some c) (c # ys) None" and xs_seg: "seg st (B ! idx) xs (Some c)"
    using l by (auto simp: bucket_list_def)
  then have ys_seg: "seg st (e_next x) ys None" using x by auto
  have keys: "map_option e_key (st' a) = map_option e_key (st a)" for a
    using u x by (auto simp: unlink_def split: option.splits if_splits)
  have other: "a \<notin> set xs \<Longrightarrow> st' a = st a" for a
    using u x by (auto simp: unlink_def split: option.splits if_splits)
  have B'_other: "i \<noteq> idx \<Longrightarrow> B' ! i = B ! i" for i
    using u x by (auto simp: unlink_def split: option.splits if_splits)
  show "length B' = MOD" using u x len by (auto simp: unlink_def split: option.splits if_splits)
  fix i assume i: "i < MOD"
  have ib: "in_bucket ?st i = in_bucket st i - {c}"
  proof -
    have "a \<in> in_bucket ?st i \<longleftrightarrow> a \<in> in_bucket st i - {c}" for a
      using keys [of a] by (cases "st a") (auto simp: in_bucket_def)
    then show ?thesis by blast
  qed
  have kk: "a \<noteq> c \<Longrightarrow> st a = Some e \<Longrightarrow> key_of ?st a = key_of st a" for a e
    using keys [of a] by auto
  show "\<exists>as. bucket_list ?st i (B' ! i) as"
  proof (cases "i = idx")
    case True
    have sg: "seg ?st (B' ! idx) (xs @ ys) None"
    proof (cases "xs = []")
      case True
      then have "st' = st" "B' ! idx = e_next x" using u x idx len by (auto simp: unlink_def)
      then show ?thesis using True ys_seg d seg_upd by simp
    next
      case False
      then obtain zs z where zs: "xs = zs @ [z]" by (cases xs rule: rev_cases) auto
      obtain y where y: "st z = Some y" using l zs seg_dom by (fastforce simp: bucket_list_def)
      have st': "st' = st(z \<mapsto> y\<lparr>e_next := e_next x\<rparr>)" and B': "B' = B"
        using u x y zs by (auto simp: unlink_def)
      have dz: "z \<notin> set zs" "c \<notin> set zs" "z \<noteq> c" "z \<notin> set ys" "c \<notin> set ys"
        using d zs by auto
      have "seg st (B ! idx) zs (Some z)" using xs_seg zs by auto
      then have "seg ?st (B ! idx) zs (Some z)" using dz seg_upd by (simp add: st')
      moreover have "seg ?st (e_next x) ys None" using ys_seg dz seg_upd by (simp add: st')
      ultimately have "seg ?st (B ! idx) ((zs @ [z]) @ ys) None" using dz by (simp add: st')
      then show ?thesis using zs B' by simp
    qed
    have dom_l: "a \<in> set (xs @ ys) \<Longrightarrow> \<exists>e. st a = Some e" for a
      using seg_dom [OF sgl, of a] by auto
    have keys_eq: "map (key_of ?st) (xs @ ys) = map (key_of st) (xs @ ys)"
    proof (rule map_cong [OF refl])
      fix a assume a: "a \<in> set (xs @ ys)"
      then have "a \<noteq> c" using d by auto
      then show "key_of ?st a = key_of st a" using dom_l [OF a] kk by blast
    qed
    have "distinct (map (key_of st) (xs @ ys))" using l by (auto simp: bucket_list_def)
    then have "distinct (map (key_of ?st) (xs @ ys))" unfolding keys_eq .
    moreover have "set (xs @ ys) = in_bucket ?st i" using ib l d True by (auto simp: bucket_list_def)
    ultimately show ?thesis using sg True unfolding bucket_list_def by blast
  next
    case False
    obtain cs where c: "bucket_list st i (B ! i) cs" using table_okD [OF t i] by blast
    have dj: "a \<in> set cs \<Longrightarrow> a \<notin> set xs \<and> a \<noteq> c" for a
    proof -
      assume "a \<in> set cs"
      then have "a \<in> in_bucket st i" using c by (simp add: bucket_list_def)
      then have "a \<notin> in_bucket st idx" using False by (auto simp: in_bucket_def)
      then show ?thesis using l by (auto simp: bucket_list_def)
    qed
    have eq: "a \<in> set cs \<Longrightarrow> ?st a = st a" for a using dj other by simp
    have sg: "seg ?st (B ! i) cs None \<longleftrightarrow> seg st (B ! i) cs None" using eq by (intro seg_cong) simp
    have km: "map (key_of ?st) cs = map (key_of st) cs" using eq by (intro map_cong) auto
    have "c \<notin> in_bucket st i" using dj c by (auto simp: bucket_list_def)
    then have "bucket_list ?st i (B' ! i) cs"
      unfolding bucket_list_def km sg B'_other [OF False] ib
      using c by (simp add: bucket_list_def)
    then show ?thesis by blast
  qed
qed

end
