(* ===== verification/Hash_Inv.thy ===== *)
theory Hash_Inv
  imports Table
begin

text \<open>
  The invariant of the database (table, counter, expiry heap and entries together), its
  meaning as a finite map from keys to values with expiry times, and how the updates of
  the store change that map.
\<close>

section \<open>The invariant\<close>

definition entry_ok :: "Entry \<Rightarrow> bool" where
  "entry_ok e \<longleftrightarrow> length (e_value e) < MAX_RESP_LEN \<and>
     (e_heap_index e \<noteq> SIZE_MAX \<longrightarrow> e_expiry e \<noteq> LONG_MAX) \<and>
     LONG_MIN \<le> e_expiry e \<and> e_expiry e \<le> LONG_MAX"

definition store_ok :: "memory \<Rightarrow> bool" where
  "store_ok m \<longleftrightarrow> (\<forall>a e. ents m a = Some e \<longrightarrow> a < nxt m \<and> entry_ok e)"

definition db_inv :: "db \<Rightarrow> bool" where
  "db_inv s \<longleftrightarrow>
     table_ok (ents (mem s)) (buckets (ht s)) \<and> ht_size (ht s) = MOD \<and>
     unat (ht_count (ht s)) = card (dom (ents (mem s))) \<and> ht_count (ht s) < MAX_ALLOWED \<and>
     ttl_inv (ttl s) (mem s) \<and> store_ok (mem s)"

type_synonym kvmap = "string \<Rightarrow> (string \<times> int) option"

text \<open>The map the database stands for: what a lookup of the code would reach.\<close>

definition abs_kv :: "db \<Rightarrow> kvmap" where
  "abs_kv s k =
     (case bucket_at s (string_folding_hash k) of None \<Rightarrow> None
      | Some p \<Rightarrow> (case find_entry (ents (mem s)) p k of
            Some (Some a) \<Rightarrow> map_option (\<lambda>e. (e_value e, e_expiry e)) (ents (mem s) a)
          | _ \<Rightarrow> None))"

text \<open>An operation that changes the table, the heap and the entries only.\<close>

definition core_only :: "db \<Rightarrow> db \<Rightarrow> bool" where
  "core_only s s' \<longleftrightarrow> sys s' = sys s \<and> SILENT s' = SILENT s \<and> nl s' = nl s \<and> slack s' = slack s \<and> uninit s' = uninit s \<and>
     app_config s' = app_config s \<and> host_config s' = host_config s \<and> process_save s' = process_save s \<and>
     alloc_ok (mem s') = alloc_ok (mem s)"

lemma core_only_refl [simp]: "core_only s s"
  by (simp add: core_only_def)

lemma core_only_trans: "core_only s s' \<Longrightarrow> core_only s' s'' \<Longrightarrow> core_only s s''"
  by (simp add: core_only_def)

lemma db_inv_cong:
  "mem s' = mem s \<Longrightarrow> ht s' = ht s \<Longrightarrow> ttl s' = ttl s \<Longrightarrow> db_inv s' \<longleftrightarrow> db_inv s"
  by (simp add: db_inv_def)

lemma abs_kv_cong: "mem s' = mem s \<Longrightarrow> ht s' = ht s \<Longrightarrow> abs_kv s' = abs_kv s"
  unfolding abs_kv_def bucket_at_def by presburger

lemma db_inv_simps [simp]:
  "db_inv (tick s) = db_inv s" "db_inv (s\<lparr>SILENT := b\<rparr>) = db_inv s"
  "db_inv (s\<lparr>process_save := b\<rparr>) = db_inv s" "db_inv (s\<lparr>sys := o'\<rparr>) = db_inv s"
  "db_inv (snd (fill_cmd_ctx c r d s)) = db_inv s" "db_inv (send_info_to_user d s) = db_inv s"
  by (rule db_inv_cong; simp)+

lemma abs_kv_simps [simp]:
  "abs_kv (tick s) = abs_kv s" "abs_kv (s\<lparr>SILENT := b\<rparr>) = abs_kv s"
  "abs_kv (s\<lparr>process_save := b\<rparr>) = abs_kv s" "abs_kv (s\<lparr>sys := o'\<rparr>) = abs_kv s"
  "abs_kv (snd (fill_cmd_ctx c r d s)) = abs_kv s" "abs_kv (send_info_to_user d s) = abs_kv s"
  by (rule abs_kv_cong; simp)+

lemma db_inv_bucket: "db_inv s \<Longrightarrow> bucket_at s (string_folding_hash k) = Some (buckets (ht s) ! string_folding_hash k)"
  by (simp add: db_inv_def table_ok_def bucket_at_def)

lemma dom_finite: "store_ok m \<Longrightarrow> finite (dom (ents m))"
proof -
  assume "store_ok m"
  then have "dom (ents m) \<subseteq> {..<nxt m}" by (auto simp: store_ok_def)
  then show ?thesis by (rule finite_subset) simp
qed

text \<open>The heap can take one more entry: it never holds more than the table.\<close>

lemma heap_fits_inv: "db_inv s \<Longrightarrow> heap_fits (ttl s)"
proof -
  assume inv: "db_inv s"
  then have wf: "ttl_wf (ttl s) (mem s)" and fin: "finite (dom (ents (mem s)))"
    using dom_finite by (auto simp: db_inv_def ttl_inv_def)
  have "heap_set (ttl s) \<subseteq> dom (ents (mem s))" using heap_set_live [OF wf] by blast
  then have "h_size (ttl s) \<le> card (dom (ents (mem s)))"
    using card_mono [OF fin] heap_set_card [OF wf] by metis
  also have "\<dots> = unat (ht_count (ht s))" using inv by (simp add: db_inv_def)
  also have "\<dots> < unat MAX_ALLOWED" using inv by (simp add: db_inv_def word_less_nat_alt)
  finally show ?thesis by (simp add: heap_fits_def SIZE_MAX_def MAX_ALLOWED_def)
qed

section \<open>The map\<close>

lemma abs_kv_hit:
  assumes "db_inv s" "ents (mem s) a = Some e" "e_key e = k"
  shows "abs_kv s k = Some (e_value e, e_expiry e)"
  using find_entry_hit [of "ents (mem s)" "buckets (ht s)" a e k] assms db_inv_bucket [OF assms(1), of k]
  by (simp add: abs_kv_def db_inv_def)

lemma abs_kv_miss:
  assumes "db_inv s" "\<And>a e. ents (mem s) a = Some e \<Longrightarrow> e_key e \<noteq> k"
  shows "abs_kv s k = None"
  using find_entry_miss [of "ents (mem s)" "buckets (ht s)" k] assms db_inv_bucket [OF assms(1), of k]
  by (simp add: abs_kv_def db_inv_def)

lemma abs_kv_Some:
  assumes "db_inv s" "abs_kv s k = Some (v, x)"
  obtains a e where "ents (mem s) a = Some e" "e_key e = k" "e_value e = v" "e_expiry e = x"
proof -
  have "\<exists>a e. ents (mem s) a = Some e \<and> e_key e = k"
    using abs_kv_miss [OF assms(1), of k] assms(2) by fastforce
  then obtain a e where a: "ents (mem s) a = Some e" "e_key e = k" by blast
  then show ?thesis using that [OF a] abs_kv_hit [OF assms(1) a] assms(2) by simp
qed

lemma abs_kv_None: "db_inv s \<Longrightarrow> abs_kv s k = None \<longleftrightarrow> (\<forall>a e. ents (mem s) a = Some e \<longrightarrow> e_key e \<noteq> k)"
  using abs_kv_miss [of s k] abs_kv_hit [of s _ _ k] by fastforce

text \<open>The number of keys of the map is the counter of the table.\<close>

lemma card_dom_abs: "db_inv s \<Longrightarrow> card (dom (abs_kv s)) = unat (ht_count (ht s))"
proof -
  assume inv: "db_inv s"
  let ?st = "ents (mem s)"
  have tab: "table_ok ?st (buckets (ht s))" using inv by (simp add: db_inv_def)
  have "dom (abs_kv s) = key_of ?st ` dom ?st"
  proof (intro set_eqI iffI)
    fix k assume "k \<in> dom (abs_kv s)"
    then have "abs_kv s k \<noteq> None" by blast
    then obtain a e where a: "?st a = Some e" "e_key e = k"
      using abs_kv_None [OF inv, of k] by metis
    then have "key_of ?st a = k" by simp
    then show "k \<in> key_of ?st ` dom ?st" using a(1) by blast
  next
    fix k assume "k \<in> key_of ?st ` dom ?st"
    then show "k \<in> dom (abs_kv s)" using abs_kv_None [OF inv, of k] by fastforce
  qed
  moreover have "inj_on (key_of ?st) (dom ?st)"
    by (rule inj_onI) (use key_unique [OF tab] in fastforce)
  ultimately have "card (dom (abs_kv s)) = card (dom ?st)" by (simp add: card_image)
  then show ?thesis using inv by (simp add: db_inv_def)
qed

text \<open>The part of an entry the map sees.\<close>

definition kvx :: "Entry \<Rightarrow> string \<times> string \<times> int" where
  "kvx e = (e_key e, e_value e, e_expiry e)"

lemma kvx_sameD:
  "map_option kvx p = map_option kvx q \<Longrightarrow> p = Some e \<Longrightarrow>
    \<exists>f. q = Some f \<and> e_key f = e_key e \<and> e_value f = e_value e \<and> e_expiry f = e_expiry e"
  by (cases q) (auto simp: kvx_def)

lemma abs_kv_eqI:
  assumes "db_inv s'"
    and "\<And>k v x. m k = Some (v, x) \<Longrightarrow> \<exists>a e. ents (mem s') a = Some e \<and> kvx e = (k, v, x)"
    and "\<And>a e. ents (mem s') a = Some e \<Longrightarrow> m (e_key e) \<noteq> None"
  shows "abs_kv s' = m"
proof
  fix k
  show "abs_kv s' k = m k"
  proof (cases "m k")
    case None
    then have "abs_kv s' k = None" using assms(3) abs_kv_None [OF assms(1)] by blast
    with None show ?thesis by simp
  next
    case (Some p)
    then obtain v x where "m k = Some (v, x)" by (cases p) auto
    from assms(2) [OF this] this show ?thesis using abs_kv_hit [OF assms(1)] by (fastforce simp: kvx_def)
  qed
qed

lemma abs_kv_touch:
  assumes inv: "db_inv s" "db_inv s'"
    and same: "\<And>a. a \<noteq> t \<Longrightarrow> map_option kvx (ents (mem s') a) = map_option kvx (ents (mem s) a)"
    and t: "ents (mem s') t = Some y"
    and key: "\<And>e. ents (mem s) t = Some e \<Longrightarrow> e_key e = e_key y"
    and new: "\<And>a e. ents (mem s) a = Some e \<Longrightarrow> e_key e = e_key y \<Longrightarrow> a = t"
  shows "abs_kv s' = (abs_kv s)(e_key y \<mapsto> (e_value y, e_expiry y))"
proof (rule abs_kv_eqI [OF inv(2)])
  fix k v x assume k: "((abs_kv s)(e_key y \<mapsto> (e_value y, e_expiry y))) k = Some (v, x)"
  show "\<exists>a e. ents (mem s') a = Some e \<and> kvx e = (k, v, x)"
  proof (cases "k = e_key y")
    case True
    then show ?thesis using k t by (intro exI [of _ t]) (simp add: kvx_def)
  next
    case False
    then obtain a e where a: "ents (mem s) a = Some e" "e_key e = k" "e_value e = v" "e_expiry e = x"
      using k abs_kv_Some [OF inv(1)] by (metis fun_upd_other)
    then have "a \<noteq> t" using key False by auto
    from same [OF this] a show ?thesis by (auto simp: kvx_def)
  qed
next
  fix a e assume a: "ents (mem s') a = Some e"
  show "((abs_kv s)(e_key y \<mapsto> (e_value y, e_expiry y))) (e_key e) \<noteq> None"
  proof (cases "a = t")
    case False
    obtain f where "ents (mem s) a = Some f" "e_key f = e_key e"
      using kvx_sameD [OF same [OF False] a] by blast
    then show ?thesis using abs_kv_hit [OF inv(1)] by fastforce
  qed (use a t in simp)
qed

lemma abs_kv_gone:
  assumes inv: "db_inv s" "db_inv s'"
    and same: "\<And>a. a \<noteq> t \<Longrightarrow> map_option kvx (ents (mem s') a) = map_option kvx (ents (mem s) a)"
    and t: "ents (mem s') t = None" "ents (mem s) t = Some y"
  shows "abs_kv s' = (abs_kv s)(e_key y := None)"
proof (rule abs_kv_eqI [OF inv(2)])
  fix k v x assume k: "((abs_kv s)(e_key y := None)) k = Some (v, x)"
  then have "k \<noteq> e_key y" "abs_kv s k = Some (v, x)" by (auto split: if_splits)
  then obtain a e where a: "ents (mem s) a = Some e" "e_key e = k" "e_value e = v" "e_expiry e = x"
    using abs_kv_Some [OF inv(1)] by metis
  then have "a \<noteq> t" using t \<open>k \<noteq> e_key y\<close> by auto
  from same [OF this] a show "\<exists>a e. ents (mem s') a = Some e \<and> kvx e = (k, v, x)" by (auto simp: kvx_def)
next
  fix a e assume a: "ents (mem s') a = Some e"
  then have "a \<noteq> t" using t by auto
  obtain f where f: "ents (mem s) a = Some f" "e_key f = e_key e"
    using kvx_sameD [OF same [OF \<open>a \<noteq> t\<close>] a] by blast
  then have "e_key e \<noteq> e_key y"
    using key_unique [of "ents (mem s)" "buckets (ht s)" a f t y] inv(1) t(2) \<open>a \<noteq> t\<close> by (auto simp: db_inv_def)
  then show "((abs_kv s)(e_key y := None)) (e_key e) \<noteq> None" using abs_kv_hit [OF inv(1) f] by simp
qed

lemma abs_kv_same:
  assumes inv: "db_inv s" "db_inv s'"
    and same: "\<And>a. map_option kvx (ents (mem s') a) = map_option kvx (ents (mem s) a)"
  shows "abs_kv s' = abs_kv s"
proof (rule abs_kv_eqI [OF inv(2)])
  fix k v x assume "abs_kv s k = Some (v, x)"
  then obtain a e where "ents (mem s) a = Some e" "e_key e = k" "e_value e = v" "e_expiry e = x"
    using abs_kv_Some [OF inv(1)] by metis
  with same [of a] show "\<exists>a e. ents (mem s') a = Some e \<and> kvx e = (k, v, x)" by (auto simp: kvx_def)
next
  fix a e assume "ents (mem s') a = Some e"
  then obtain f where "ents (mem s) a = Some f" "e_key f = e_key e"
    using kvx_sameD [OF same] by blast
  then show "abs_kv s (e_key e) \<noteq> None" using abs_kv_hit [OF inv(1)] by fastforce
qed

section \<open>The expiry heap under updates of entries\<close>

lemma ttl_inv_cong:
  assumes inv: "ttl_inv h m"
    and same: "\<And>a. a \<in> heap_set h \<Longrightarrow>
      map_option (\<lambda>e. (e_heap_index e, e_expiry e)) (ents m' a) = map_option (\<lambda>e. (e_heap_index e, e_expiry e)) (ents m a)"
    and out: "\<And>a e. ents m' a = Some e \<Longrightarrow> a \<notin> heap_set h \<Longrightarrow> e_heap_index e = SIZE_MAX"
  shows "ttl_inv h m'"
proof -
  have wf: "ttl_wf h m" using inv by (simp add: ttl_inv_def)
  have "ttl_wf h m'"
    unfolding ttl_wf_def
  proof (intro conjI allI impI)
    fix i assume i: "i < h_size h"
    obtain a e where a: "heap_read h i = Some a" "ents m a = Some e" "e_heap_index e = i"
      using ttl_wfD [OF wf i] by blast
    then have "a \<in> heap_set h" using i by (auto simp: heap_set_def)
    from same [OF this] a show "\<exists>a e. heap_read h i = Some a \<and> ents m' a = Some e \<and> e_heap_index e = i"
      by (cases "ents m' a") auto
  qed (use wf in \<open>auto simp: ttl_wf_def\<close>)
  moreover have keys: "key_at h m' i = key_at h m i" if i: "i < h_size h" for i
  proof -
    obtain a e where a: "heap_read h i = Some a" "ents m a = Some e" using ttl_wfD [OF wf i] by blast
    then have "a \<in> heap_set h" using i by (auto simp: heap_set_def)
    from same [OF this] a show ?thesis by (cases "ents m' a") (auto simp: key_at_def)
  qed
  have "ord_upto (key_at h m') (h_size h)"
    using inv keys ord_upto_cong [of "h_size h" "key_at h m'" "key_at h m"] by (simp add: ttl_inv_def)
  ultimately show ?thesis using inv out by (auto simp: ttl_inv_def ttl_out_def)
qed

lemma ttl_inv_ents: "ents m' = ents m \<Longrightarrow> ttl_inv h m \<Longrightarrow> ttl_inv h m'"
proof -
  assume e: "ents m' = ents m" and i: "ttl_inv h m"
  show ?thesis by (rule ttl_inv_cong [OF i]) (use e i in \<open>auto simp: ttl_inv_def ttl_out_def\<close>)
qed

lemma heap_set_index: "ttl_inv h m \<Longrightarrow> a \<in> heap_set h \<Longrightarrow> ents m a = Some e \<Longrightarrow> e_heap_index e \<noteq> SIZE_MAX"
  using heap_index_iff by blast

text \<open>A heap operation keeps the database and its map.\<close>

lemma store_ok_heap_op:
  assumes m: "store_ok m" "index_only m m'" and h: "ttl_inv h m" "ttl_inv h' m'"
    and new: "\<And>a e. a \<in> heap_set h' \<Longrightarrow> a \<notin> heap_set h \<Longrightarrow> ents m a = Some e \<Longrightarrow> e_expiry e \<noteq> LONG_MAX"
  shows "store_ok m'"
  unfolding store_ok_def
proof (intro allI impI)
  fix a e' assume a: "ents m' a = Some e'"
  then obtain e where e: "ents m a = Some e" using index_only_dom [OF m(2), of a] by (cases "ents m a") auto
  have f: "e_value e' = e_value e" "e_expiry e' = e_expiry e"
    using index_only_fields [OF m(2) e] a by auto
  have ok: "a < nxt m" "entry_ok e" using m(1) e by (auto simp: store_ok_def)
  have "e_expiry e' \<noteq> LONG_MAX" if "e_heap_index e' \<noteq> SIZE_MAX"
  proof -
    have in': "a \<in> heap_set h'" using that heap_index_iff [OF h(2) a] by blast
    show ?thesis
    proof (cases "a \<in> heap_set h")
      case True
      then show ?thesis using heap_index_iff [OF h(1) e] ok(2) f by (auto simp: entry_ok_def)
    next
      case False
      from new [OF in' this e] f show ?thesis by simp
    qed
  qed
  then show "a < nxt m' \<and> entry_ok e'" using ok f m(2) by (auto simp: entry_ok_def index_only_def)
qed

lemma db_inv_heap_op:
  assumes "db_inv s" "index_only (mem s) m'" "ttl_inv h' m'"
    and new: "\<And>a e. a \<in> heap_set h' \<Longrightarrow> a \<notin> heap_set (ttl s) \<Longrightarrow> ents (mem s) a = Some e \<Longrightarrow> e_expiry e \<noteq> LONG_MAX"
  shows "db_inv (s\<lparr>ttl := h', mem := m'\<rparr>)" and "abs_kv (s\<lparr>ttl := h', mem := m'\<rparr>) = abs_kv s"
proof -
  have "store_ok m'"
    by (rule store_ok_heap_op [OF _ assms(2) _ assms(3) new]) (use assms(1) in \<open>simp_all add: db_inv_def\<close>)
  moreover have "dom (ents m') = dom (ents (mem s))" using index_only_dom [OF assms(2)] by (simp add: dom_def)
  ultimately show inv: "db_inv (s\<lparr>ttl := h', mem := m'\<rparr>)"
    using assms(1,3) table_ok_index_only [OF assms(2)] by (simp add: db_inv_def)
  show "abs_kv (s\<lparr>ttl := h', mem := m'\<rparr>) = abs_kv s"
  proof (rule abs_kv_same [OF assms(1) inv])
    fix a
    show "map_option kvx (ents (mem (s\<lparr>ttl := h', mem := m'\<rparr>)) a) = map_option kvx (ents (mem s) a)"
      using index_only_fields [OF assms(2), of a] index_only_dom [OF assms(2), of a]
      by (cases "ents (mem s) a") (auto simp: kvx_def)
  qed
qed

end
