(* ===== verification/Hash_Proof.thy ===== *)
theory Hash_Proof
  imports Hash_Inv
begin

text \<open>
  Every operation of \<open>hash.c\<close> on a database that satisfies the invariant: it runs without
  undefined behaviour, keeps the invariant, and changes the map of keys as stated. The
  removals from the expiry heap rest on the laws of the expiry queue.
\<close>

lemma case_answer: "(case fill_cmd_ctx ctx r msg s of (ctx', s') \<Rightarrow> Some (r, ctx', s')) = Some (answer ctx r msg s)"
  by (simp add: answer_def split: prod.split)

section \<open>Deletion\<close>

text \<open>
  The entry \<open>c\<close> unlinked (store \<open>st1\<close>, buckets \<open>B1\<close>), taken out of the heap and freed.
\<close>

lemma delete_keeps:
  assumes inv: "db_inv s" and c: "ents (mem s) c = Some x"
    and l: "bucket_list (ents (mem s)) (string_folding_hash (e_key x)) (buckets (ht s) ! string_folding_hash (e_key x)) (xs @ c # ys)"
    and u: "unlink (ents (mem s)) (buckets (ht s)) (string_folding_hash (e_key x))
              (if xs = [] then None else Some (last xs)) c = (st1, B1)"
    and m2: "ents m2 = st1" "nxt m2 = nxt (mem s)"
    and m3: "index_only m2 m3" "ttl_inv h3 m3" "heap_set h3 = heap_set (ttl s) - {c}"
    and s': "mem s' = free_entry m3 c" "buckets (ht s') = B1" "ht_size (ht s') = ht_size (ht s)"
      "ht_count (ht s') = ht_count (ht s) - 1" "ttl s' = h3"
  shows "db_inv s' \<and> abs_kv s' = (abs_kv s)(e_key x := None)"
proof -
  let ?st = "ents (mem s)" and ?st' = "(ents m3)(c := None)"
  have st1: "map_option (\<lambda>e. (kvx e, e_heap_index e)) (st1 a) = map_option (\<lambda>e. (kvx e, e_heap_index e)) (?st a)" for a
    using u c by (auto simp: unlink_def kvx_def split: option.splits if_splits)
  have io: "map_option (\<lambda>e. (kvx e, e_next e)) (ents m3 a) = map_option (\<lambda>e. (kvx e, e_next e)) (st1 a)" for a
    using index_only_fields [OF m3(1), of a] index_only_dom [OF m3(1), of a] m2(1)
    by (cases "st1 a") (auto simp: kvx_def)
  have kvx: "map_option kvx (ents m3 a) = map_option kvx (?st a)" for a
    using st1 [of a] io [of a] by (cases "?st a"; cases "st1 a"; cases "ents m3 a") auto
  have dom3: "ents m3 a = None \<longleftrightarrow> ?st a = None" for a
    using kvx [of a] by (metis option.map_disc_iff)
  have e': "ents (mem s') = ?st'" using s'(1) by simp
  have t1: "table_ok (st1(c := None)) B1"
    using table_ok_unlink [OF _ _ l u] inv by (simp add: db_inv_def)
  have "table_ok ?st' B1"
  proof (subst table_ok_cong)
    fix a
    show "map_option (\<lambda>e. (e_key e, e_next e)) (?st' a) = map_option (\<lambda>e. (e_key e, e_next e)) ((st1(c := None)) a)"
      using io [of a] by (cases "st1 a"; cases "ents m3 a") (auto simp: kvx_def)
  qed (rule t1)
  moreover have "unat (ht_count (ht s) - 1) = card (dom ?st') \<and> ht_count (ht s) - 1 < MAX_ALLOWED"
  proof -
    have fin: "finite (dom ?st)" using inv dom_finite by (simp add: db_inv_def)
    have "dom ?st' = dom ?st - {c}" by (auto simp: dom_def dom3 simp del: not_None_eq)
    moreover have "c \<in> dom ?st" using c by auto
    ultimately have card: "Suc (card (dom ?st')) = card (dom ?st)" using card_Suc_Diff1 [OF fin] by simp
    have cnt: "unat (ht_count (ht s)) = Suc (card (dom ?st'))" using inv card by (simp add: db_inv_def)
    then have "1 \<le> ht_count (ht s)" by (simp add: word_le_nat_alt)
    then have "unat (ht_count (ht s) - 1) = unat (ht_count (ht s)) - 1" by (simp add: unat_sub)
    then show ?thesis using cnt inv by (simp add: db_inv_def word_less_nat_alt)
  qed
  moreover have "ttl_inv h3 (free_entry m3 c)"
    by (rule ttl_inv_cong [OF m3(2)])
      (use m3 in \<open>auto simp: ttl_inv_def ttl_out_def split: if_splits\<close>)
  moreover have "store_ok (free_entry m3 c)"
    unfolding store_ok_def
  proof (intro allI impI)
    fix a e assume "ents (free_entry m3 c) a = Some e"
    then have a: "ents m3 a = Some e" "a \<noteq> c" by (auto split: if_splits)
    obtain f where f: "?st a = Some f" "e_value f = e_value e" "e_expiry f = e_expiry e"
      using kvx_sameD [OF kvx a(1)] by blast
    have ok: "a < nxt (mem s)" "entry_ok f" using inv f by (auto simp: db_inv_def store_ok_def)
    have "e_expiry e \<noteq> LONG_MAX" if "e_heap_index e \<noteq> SIZE_MAX"
    proof -
      have "a \<in> heap_set (ttl s)" using heap_index_iff [OF m3(2) a(1)] m3(3) that by blast
      then have "e_heap_index f \<noteq> SIZE_MAX" using heap_index_iff f(1) inv by (auto simp: db_inv_def)
      then show ?thesis using ok f by (auto simp: entry_ok_def)
    qed
    moreover have "nxt m3 = nxt (mem s)" using m3(1) m2(2) by (simp add: index_only_def)
    ultimately show "a < nxt (free_entry m3 c) \<and> entry_ok e" using ok f by (auto simp: entry_ok_def)
  qed
  ultimately have inv': "db_inv s'" using inv s' by (simp add: db_inv_def)
  have "abs_kv s' = (abs_kv s)(e_key x := None)"
    by (rule abs_kv_gone [OF inv inv' _ _ c]) (use kvx in \<open>auto simp: e'\<close>)
  with inv' show ?thesis by blast
qed

lemma hash_delete_ok:
  assumes inv: "db_inv s"
  shows "\<exists>s1. hash_delete k ctx s =
      Some (answer ctx (if abs_kv s k = None then DB_ERR_KEY_NOTEXIST else DB_ERR_OK)
                      (if abs_kv s k = None then ''ERR'' else ''OK'') s1) \<and>
    db_inv s1 \<and> abs_kv s1 = (abs_kv s)(k := None) \<and> core_only s s1 \<and>
    heap_set (ttl s1) \<subseteq> heap_set (ttl s)"
proof -
  let ?i = "string_folding_hash k" and ?st = "ents (mem s)" and ?B = "buckets (ht s)"
  have tab: "table_ok ?st ?B" using inv by (simp add: db_inv_def)
  obtain as where l: "bucket_list ?st ?i (?B ! ?i) as" using table_list [OF tab] by blast
  have sg: "seg ?st (?B ! ?i) as None" using l by (simp add: bucket_list_def)
  show ?thesis
  proof (cases "abs_kv s k")
    case None
    then have "\<forall>x\<in>set as. key_of ?st x \<noteq> k"
      using abs_kv_None [OF inv] seg_dom [OF sg] by fastforce
    then obtain q where "find_prev ?st None (?B ! ?i) k = Some (q, None)"
      using find_prev_miss [OF sg] by blast
    then have "hash_delete k ctx s = Some (answer ctx DB_ERR_KEY_NOTEXIST ''ERR'' s)"
      using db_inv_bucket [OF inv] by (simp add: hash_delete_def case_answer)
    moreover have "(abs_kv s)(k := None) = abs_kv s" using None by auto
    ultimately show ?thesis using None inv by auto
  next
    case (Some p)
    then obtain v t where "abs_kv s k = Some (v, t)" by (cases p) auto
    then obtain c x where c: "?st c = Some x" "e_key x = k" using abs_kv_Some [OF inv] by metis
    then have "c \<in> set as" using l in_bucket_key by (auto simp: bucket_list_def)
    then obtain xs ys where as: "as = xs @ c # ys" by (meson split_list)
    have "distinct (map (key_of ?st) (xs @ c # ys))" using l as unfolding bucket_list_def by blast
    then have nk: "\<forall>y\<in>set xs. key_of ?st y \<noteq> k" using c by (auto simp: image_iff)
    let ?prev = "if xs = [] then None else Some (last xs)"
    have fp: "find_prev ?st None (?B ! ?i) k = Some (?prev, Some c)"
      using find_prev_seg [of ?st _ xs c ys k] sg as nk c by simp
    obtain st1 B1 where u: "unlink ?st ?B ?i ?prev c = (st1, B1)" by fastforce
    define s1 where "s1 = s\<lparr>mem := (mem s)\<lparr>ents := st1\<rparr>, ht := (ht s)\<lparr>buckets := B1\<rparr>\<rparr>"
    have pd: "xs \<noteq> [] \<Longrightarrow> \<exists>y. ?st (last xs) = Some y"
      using seg_dom [OF sg, of "last xs"] as by auto
    have step1: "(case ?prev of None \<Rightarrow> Some (set_bucket s ?i (e_next x))
        | Some p \<Rightarrow> ents (mem s) p \<bind> (\<lambda>y. Some (put_ent s p (y\<lparr>e_next := e_next x\<rparr>)))) = Some s1"
      using u c pd by (auto simp: s1_def unlink_def set_bucket_def put_ent_def put_entry_def split: if_splits)
    define s2 where "s2 = set_count s1 (ht_count (ht s) - 1)"
    have s2': "set_count s1 (ht_count (ht s1) - 1) = s2" by (simp add: s2_def s1_def)
    have s2: "mem s2 = (mem s)\<lparr>ents := st1\<rparr>" "ttl s2 = ttl s" "ht s2 = (ht s)\<lparr>buckets := B1, ht_count := ht_count (ht s) - 1\<rparr>"
      by (simp_all add: s2_def s1_def set_count_def)
    have st1: "map_option (\<lambda>e. (kvx e, e_heap_index e)) (st1 a) = map_option (\<lambda>e. (kvx e, e_heap_index e)) (?st a)" for a
      using u c by (auto simp: unlink_def kvx_def split: option.splits if_splits)
    have ti: "ttl_inv (ttl s) (mem s)" using inv by (simp add: db_inv_def)
    have ti2: "ttl_inv (ttl s) (mem s2)"
    proof (rule ttl_inv_cong [OF ti])
      fix a
      show "map_option (\<lambda>e. (e_heap_index e, e_expiry e)) (ents (mem s2) a) = map_option (\<lambda>e. (e_heap_index e, e_expiry e)) (?st a)"
        using st1 [of a] by (cases "?st a"; cases "st1 a") (auto simp: s2 kvx_def)
    next
      fix a e assume "ents (mem s2) a = Some e" "a \<notin> heap_set (ttl s)"
      then show "e_heap_index e = SIZE_MAX"
        using st1 [of a] ti by (cases "?st a") (auto simp: s2 ttl_inv_def ttl_out_def)
    qed
    have "entry_ok x" using inv c by (auto simp: db_inv_def store_ok_def)
    then have guard: "(e_heap_index x \<noteq> SIZE_MAX \<and> e_expiry x \<noteq> LONG_MAX) \<longleftrightarrow> c \<in> heap_set (ttl s)"
      using heap_index_iff [OF ti c(1)] by (auto simp: entry_ok_def)
    obtain s3 where s3: "(if e_heap_index x \<noteq> SIZE_MAX \<and> e_expiry x \<noteq> LONG_MAX
        then heap_remove (ttl s2) (mem s2) c \<bind> (\<lambda>(r, h', m'). Some (s2\<lparr>ttl := h', mem := m'\<rparr>)) else Some s2) = Some s3"
      "index_only (mem s2) (mem s3)" "ttl_inv (ttl s3) (mem s3)" "heap_set (ttl s3) = heap_set (ttl s) - {c}"
      "ht s3 = ht s2" "core_only s2 s3"
    proof (cases "c \<in> heap_set (ttl s)")
      case True
      obtain h' m' where r: "heap_remove (ttl s) (mem s2) c = Some (0, h', m')" "ttl_inv h' m'"
        "heap_set h' = heap_set (ttl s) - {c}" "index_only (mem s2) m'"
        using ttlq.rmv_in [OF ti2 True] by blast
      show ?thesis
        by (rule that [of "s2\<lparr>ttl := h', mem := m'\<rparr>"])
          (use r guard True s2 in \<open>auto simp: core_only_def index_only_def\<close>)
    next
      case False
      show ?thesis by (rule that [of s2]) (use guard False ti2 s2 in auto)
    qed
    let ?s4 = "s3\<lparr>mem := free_entry (mem s3) c\<rparr>"
    have run: "hash_delete k ctx s = Some (answer ctx DB_ERR_OK ''OK'' ?s4)"
      unfolding hash_delete_def
      using db_inv_bucket [OF inv, of k] fp c(1) step1 s3(1) s2'
      by (simp add: case_answer Let_def del: bind_assoc split del: if_split cong: if_cong)
    have res: "db_inv ?s4 \<and> abs_kv ?s4 = (abs_kv s)(e_key x := None)"
      by (rule delete_keeps [OF inv c(1) l [unfolded as, folded c(2)] u [folded c(2)] _ _ s3(2,3,4)])
        (use s2 s3(5) in auto)
    moreover have "core_only s ?s4"
      using s3(6) by (simp add: core_only_def s2_def s1_def set_count_def)
    moreover have "heap_set (ttl ?s4) \<subseteq> heap_set (ttl s)" using s3(4) by auto
    ultimately show ?thesis using run Some c(2) by (intro exI [of _ ?s4]) simp
  qed
qed

section \<open>Access with lazy expiry\<close>

text \<open>
  A key counts as present at time \<open>t\<close> when it has no expiry (-1) or one after \<open>t\<close>. An
  access reads the clock once if the key is stored, and drops it when it has expired;
  dropping leaves \<open>SILENT\<close> cleared.
\<close>

definition live_at :: "int \<Rightarrow> (string \<times> int) option \<Rightarrow> bool" where
  "live_at t p = (case p of None \<Rightarrow> False | Some (v, x) \<Rightarrow> t < x \<or> x = -1)"

definition accessed :: "string \<Rightarrow> db \<Rightarrow> db" where
  "accessed k s = (if abs_kv s k = None then s
     else if live_at (time_now s) (abs_kv s k) then tick s else (tick s)\<lparr>SILENT := False\<rparr>)"

definition access_map :: "string \<Rightarrow> db \<Rightarrow> string \<Rightarrow> (string \<times> int) option" where
  "access_map k s = (if live_at (time_now s) (abs_kv s k) then abs_kv s else (abs_kv s)(k := None))"

definition after_access :: "string \<Rightarrow> db \<Rightarrow> db \<Rightarrow> bool" where
  "after_access k s s' \<longleftrightarrow> db_inv s' \<and> abs_kv s' = access_map k s \<and> core_only (accessed k s) s'"

lemma live_at_simps [simp]:
  "\<not> live_at t None" "live_at t (Some (v, x)) \<longleftrightarrow> t < x \<or> x = -1"
  by (simp_all add: live_at_def)

lemma lazy_live:
  assumes "ents (mem s) a = Some e" "time_now s < e_expiry e \<or> e_expiry e = -1"
  shows "lazy_expire_and_delete a s = Some (DB_ERR_KEY_NOT_EXPIRED, tick s)"
  using assms by (auto simp: lazy_expire_and_delete_def time_NULL_def)

lemma lazy_expired:
  assumes inv: "db_inv s" and a: "ents (mem s) a = Some e" and x: "\<not> (time_now s < e_expiry e \<or> e_expiry e = -1)"
  shows "\<exists>s1. lazy_expire_and_delete a s = Some (DB_ERR_KEY_EXPIRED, s1) \<and> db_inv s1 \<and>
    abs_kv s1 = (abs_kv s)(e_key e := None) \<and> core_only ((tick s)\<lparr>SILENT := False\<rparr>) s1"
proof -
  have inv1: "db_inv (tick s)" using inv by simp
  have "ttl_inv (ttl (tick s)) (mem (tick s))" using inv by (simp add: db_inv_def)
  moreover have "entry_live (mem (tick s)) a" using a by (simp add: entry_live_def)
  ultimately obtain h' m' where r: "heap_remove (ttl (tick s)) (mem (tick s)) a =
      Some (if a \<in> heap_set (ttl (tick s)) then 0 else 4, h', m')"
    "ttl_inv h' m'" "heap_set h' = heap_set (ttl (tick s)) - {a}" "index_only (mem (tick s)) m'"
    using ttlq.rmv_total by blast
  let ?s2 = "(tick s)\<lparr>ttl := h', mem := m', SILENT := True\<rparr>"
  have "db_inv ((tick s)\<lparr>ttl := h', mem := m'\<rparr>)" "abs_kv ((tick s)\<lparr>ttl := h', mem := m'\<rparr>) = abs_kv s"
    using db_inv_heap_op [OF inv1 r(4,2)] r(3) by simp_all
  then have inv2: "db_inv ?s2" and abs2: "abs_kv ?s2 = abs_kv s"
    using db_inv_cong [of ?s2] abs_kv_cong [of ?s2 "(tick s)\<lparr>ttl := h', mem := m'\<rparr>"] by auto
  obtain f where f: "ents m' a = Some f" "e_key f = e_key e"
    using index_only_fields [OF r(4)] a by fastforce
  obtain s3 where s3: "hash_delete (e_key f) None ?s2 = Some (answer None (if abs_kv ?s2 (e_key f) = None then DB_ERR_KEY_NOTEXIST else DB_ERR_OK)
      (if abs_kv ?s2 (e_key f) = None then ''ERR'' else ''OK'') s3)"
    "db_inv s3" "abs_kv s3 = (abs_kv ?s2)(e_key f := None)" "core_only ?s2 s3"
    using hash_delete_ok [OF inv2] by blast
  have silent: "SILENT s3" using s3(4) by (simp add: core_only_def)
  have rep: "answer None r0 msg s3 = (r0, None, s3)" for r0 msg
    using silent by (simp add: answer_def fill_cmd_ctx_def send_info_silent)
  have "lazy_expire_and_delete a s = Some (DB_ERR_KEY_EXPIRED, s3\<lparr>SILENT := False\<rparr>)"
    unfolding lazy_expire_and_delete_def
    using a x r(1) f s3(1) by (simp add: time_NULL_def rep)
  moreover have "core_only ((tick s)\<lparr>SILENT := False\<rparr>) (s3\<lparr>SILENT := False\<rparr>)"
    using s3(4) r(4) by (simp add: core_only_def index_only_def)
  ultimately show ?thesis using s3(2,3) abs2 f(2) by auto
qed

lemma find_live_ok:
  assumes inv: "db_inv s"
  shows "\<exists>p s1. find_live k s = Some (p, s1) \<and> after_access k s s1 \<and>
    (if live_at (time_now s) (abs_kv s k)
     then \<exists>a e. p = Some a \<and> s1 = tick s \<and> ents (mem s1) a = Some e \<and> e_key e = k \<and>
       abs_kv s k = Some (e_value e, e_expiry e)
     else p = None)"
proof (cases "abs_kv s k")
  case None
  have "find_live k s = Some (None, s)"
    using find_entry_miss [of "ents (mem s)" "buckets (ht s)" k] abs_kv_None [OF inv] None inv db_inv_bucket [OF inv, of k]
    by (simp add: find_live_def db_inv_def)
  moreover have "(abs_kv s)(k := None) = abs_kv s" using None by auto
  ultimately show ?thesis using None inv by (simp add: after_access_def accessed_def access_map_def)
next
  case (Some p)
  then obtain a e where a: "ents (mem s) a = Some e" "e_key e = k" and p: "p = (e_value e, e_expiry e)"
    using abs_kv_Some [OF inv] by (metis surj_pair)
  have hit: "find_entry (ents (mem s)) (buckets (ht s) ! string_folding_hash k) k = Some (Some a)"
    using find_entry_hit a inv by (simp add: db_inv_def)
  show ?thesis
  proof (cases "time_now s < e_expiry e \<or> e_expiry e = -1")
    case True
    have "find_live k s = Some (Some a, tick s)"
      using hit a lazy_live [OF a(1) True] db_inv_bucket [OF inv, of k] by (simp add: find_live_def)
    then show ?thesis using Some p a True inv by (auto simp: after_access_def accessed_def access_map_def)
  next
    case False
    obtain s1 where s1: "lazy_expire_and_delete a s = Some (DB_ERR_KEY_EXPIRED, s1)" "db_inv s1"
      "abs_kv s1 = (abs_kv s)(e_key e := None)" "core_only ((tick s)\<lparr>SILENT := False\<rparr>) s1"
      using lazy_expired [OF inv a(1) False] by blast
    have "find_live k s = Some (None, s1)"
      using hit a s1(1) db_inv_bucket [OF inv, of k] by (simp add: find_live_def)
    then show ?thesis using Some p a False s1 by (auto simp: after_access_def accessed_def access_map_def)
  qed
qed

lemma hash_get_kv_find_live:
  assumes inv: "db_inv s"
  shows "hash_get_kv k s = find_live k s"
proof (cases "abs_kv s k")
  case None
  then show ?thesis
    using find_entry_miss [of "ents (mem s)" "buckets (ht s)" k] abs_kv_None [OF inv] inv db_inv_bucket [OF inv, of k]
    by (simp add: find_live_def hash_get_kv_def db_inv_def)
next
  case (Some p)
  then obtain a e where a: "ents (mem s) a = Some e" "e_key e = k"
    using abs_kv_Some [OF inv] by (metis surj_pair)
  then have "find_entry (ents (mem s)) (buckets (ht s) ! string_folding_hash k) k = Some (Some a)"
    using find_entry_hit inv by (simp add: db_inv_def)
  then show ?thesis
    using a db_inv_bucket [OF inv, of k] by (simp add: find_live_def hash_get_kv_def)
qed

section \<open>The readers\<close>

lemma stored_value_short: "db_inv s \<Longrightarrow> ents (mem s) a = Some e \<Longrightarrow> length (e_value e) < MAX_RESP_LEN"
  by (simp add: db_inv_def store_ok_def entry_ok_def)

lemma hash_get_ok:
  assumes inv: "db_inv s"
  shows "\<exists>s1. after_access k s s1 \<and> hash_get k ctx s = Some
    (if live_at (time_now s) (abs_kv s k) then answer ctx DB_ERR_OK (fst (the (abs_kv s k))) s1
     else answer ctx DB_ERR_KEY_NOTEXIST ''ERR'' s1)"
proof -
  obtain p s1 where f: "find_live k s = Some (p, s1)" "after_access k s s1"
    "if live_at (time_now s) (abs_kv s k)
     then \<exists>a e. p = Some a \<and> s1 = tick s \<and> ents (mem s1) a = Some e \<and> e_key e = k \<and>
       abs_kv s k = Some (e_value e, e_expiry e)
     else p = None"
    using find_live_ok [OF inv] by blast
  show ?thesis
  proof (cases "live_at (time_now s) (abs_kv s k)")
    case True
    then obtain a e where a: "p = Some a" "s1 = tick s" "ents (mem s1) a = Some e"
      "abs_kv s k = Some (e_value e, e_expiry e)" using f(3) by auto
    have "length (e_value e) < MAX_RESP_LEN" using stored_value_short [OF inv] a by simp
    then have "hash_get k ctx s = Some (answer ctx DB_ERR_OK (e_value e) s1)"
      using f(1) a by (simp add: hash_get_def case_answer sprintf_to_def)
    then show ?thesis using True f(2) a(4) by auto
  next
    case False
    then show ?thesis using f by (auto simp: hash_get_def case_answer)
  qed
qed

lemma hash_get_expiry_ok:
  assumes inv: "db_inv s"
  shows "\<exists>s1. after_access k s s1 \<and> hash_get_expiry k ctx s = Some
    (if live_at (time_now s) (abs_kv s k)
     then answer ctx DB_ERR_OK (let x = snd (the (abs_kv s k)) in if x \<noteq> -1 then show_zu x else RED @ ''NULL'' @ RESET) s1
     else answer ctx DB_ERR_KEY_NOTEXIST (RED @ ''ERR'' @ RESET) s1)"
proof -
  obtain p s1 where f: "find_live k s = Some (p, s1)" "after_access k s s1"
    "if live_at (time_now s) (abs_kv s k)
     then \<exists>a e. p = Some a \<and> s1 = tick s \<and> ents (mem s1) a = Some e \<and> e_key e = k \<and>
       abs_kv s k = Some (e_value e, e_expiry e)
     else p = None"
    using find_live_ok [OF inv] by blast
  then show ?thesis
    by (cases "live_at (time_now s) (abs_kv s k)") (auto simp: hash_get_expiry_def case_answer)
qed

lemma hash_exists_ok:
  assumes inv: "db_inv s"
  shows "\<exists>s1. after_access k s s1 \<and> hash_exists k ctx s = Some
    (if live_at (time_now s) (abs_kv s k) then answer ctx DB_ERR_OK (BOLD @ GREEN @ ''TRUE'' @ RESET) s1
     else answer ctx DB_ERR_KEY_NOTEXIST (BOLD @ RED @ ''FALSE'' @ RESET) s1)"
proof -
  obtain p s1 where f: "find_live k s = Some (p, s1)" "after_access k s s1"
    "if live_at (time_now s) (abs_kv s k)
     then \<exists>a e. p = Some a \<and> s1 = tick s \<and> ents (mem s1) a = Some e \<and> e_key e = k \<and>
       abs_kv s k = Some (e_value e, e_expiry e)
     else p = None"
    using find_live_ok [OF inv] by blast
  then show ?thesis
    by (cases "live_at (time_now s) (abs_kv s k)") (auto simp: hash_exists_def case_answer)
qed

section \<open>Insertion\<close>

lemma db_inv_ents:
  assumes "db_inv s" "ents (mem s') = ents (mem s)" "nxt (mem s) \<le> nxt (mem s')" "ht s' = ht s" "ttl s' = ttl s"
  shows "db_inv s'" and "abs_kv s' = abs_kv s"
proof -
  have st: "store_ok (mem s')"
    using assms unfolding db_inv_def store_ok_def by (metis le_trans less_le_trans)
  show "db_inv s'"
    using assms(1) st ttl_inv_ents [OF assms(2)] unfolding db_inv_def assms(2,4,5) by blast
  show "abs_kv s' = abs_kv s"
    unfolding abs_kv_def bucket_at_def assms(2,4) ..
qed

lemma malloc_ok_keeps:
  assumes "malloc_ok s = (b, s')"
  shows "b = alloc_ok (mem s) (allocs (mem s))" "ents (mem s') = ents (mem s)" "nxt (mem s') = nxt (mem s)"
    "ht s' = ht s" "ttl s' = ttl s" "core_only s s'" "alloc_ok (mem s') = alloc_ok (mem s)"
    "allocs (mem s') = Suc (allocs (mem s))"
  using assms by (auto simp: malloc_ok_def alloc_def core_only_def)

text \<open>A field of one entry that neither the table nor the heap looks at.\<close>

lemma put_value_keeps:
  assumes inv: "db_inv s" and t: "ents (mem s) t = Some y" and v: "length v < MAX_RESP_LEN"
    and s': "ents (mem s') = (ents (mem s))(t \<mapsto> y\<lparr>e_value := v\<rparr>)" "nxt (mem s) \<le> nxt (mem s')"
      "ht s' = ht s" "ttl s' = ttl s"
  shows "db_inv s'" and "abs_kv s' = (abs_kv s)(e_key y \<mapsto> (v, e_expiry y))"
proof -
  let ?st = "ents (mem s)"
  have tab: "table_ok ?st (buckets (ht s))" using inv by (simp add: db_inv_def)
  have "table_ok (ents (mem s')) (buckets (ht s))"
    unfolding s'(1) by (rule table_ok_same [OF tab t]) simp_all
  moreover have "dom (ents (mem s')) = dom ?st" using t s'(1) by auto
  moreover have "ttl_inv (ttl s) (mem s')"
    by (rule ttl_inv_cong [of _ "mem s"])
      (use inv t s'(1) in \<open>auto simp: db_inv_def ttl_inv_def ttl_out_def split: if_splits\<close>)
  moreover have "store_ok (mem s')"
    using inv t v s'(1,2) unfolding db_inv_def store_ok_def
    by (auto simp: entry_ok_def intro: less_le_trans split: if_splits)
  ultimately show inv': "db_inv s'" using inv s' by (simp add: db_inv_def)
  have "abs_kv s' = (abs_kv s)(e_key (y\<lparr>e_value := v\<rparr>) \<mapsto> (e_value (y\<lparr>e_value := v\<rparr>), e_expiry (y\<lparr>e_value := v\<rparr>)))"
  proof (rule abs_kv_touch [OF inv inv'])
    show "ents (mem s') t = Some (y\<lparr>e_value := v\<rparr>)" using s'(1) by simp
    show "a = t" if "?st a = Some e" "e_key e = e_key (y\<lparr>e_value := v\<rparr>)" for a e
      using key_unique [of ?st "buckets (ht s)" a e t y] inv that t by (simp add: db_inv_def)
  qed (use s'(1) t in auto)
  then show "abs_kv s' = (abs_kv s)(e_key y \<mapsto> (v, e_expiry y))" by simp
qed

text \<open>A new entry linked into its bucket and counted.\<close>

lemma new_entry_keeps:
  assumes inv: "db_inv s" and x: "e_expiry x = -1" "e_heap_index x = SIZE_MAX" "length (e_value x) < MAX_RESP_LEN"
    and fresh: "abs_kv s (e_key x) = None" and count: "ht_count (ht s) + 1 < MAX_ALLOWED"
    and e: "ents (mem s) e = None" "e < nxt (mem s')" "nxt (mem s) \<le> nxt (mem s')"
    and st: "ents (mem s') e = Some x"
      "\<And>a. a \<noteq> e \<Longrightarrow> map_option (\<lambda>f. (kvx f, e_heap_index f)) (ents (mem s') a) =
                   map_option (\<lambda>f. (kvx f, e_heap_index f)) (ents (mem s) a)"
    and tab: "table_ok (ents (mem s')) (buckets (ht s'))"
    and s': "ht_size (ht s') = ht_size (ht s)" "ht_count (ht s') = ht_count (ht s) + 1" "ttl s' = ttl s"
  shows "db_inv s'" and "abs_kv s' = (abs_kv s)(e_key x \<mapsto> (e_value x, -1))"
proof -
  let ?st = "ents (mem s)" and ?st' = "ents (mem s')"
  have old: "\<exists>f. ?st a = Some f \<and> kvx f = kvx f' \<and> e_heap_index f = e_heap_index f'"
    if "a \<noteq> e" "?st' a = Some f'" for a f'
    using st(2) [OF that(1)] that(2) by (cases "?st a") auto
  have "dom ?st' = insert e (dom ?st)"
  proof -
    have "(?st' a = None) = (?st a = None)" if "a \<noteq> e" for a
      using st(2) [OF that] by (cases "?st' a"; cases "?st a") simp_all
    then have "a \<in> dom ?st' \<longleftrightarrow> a \<in> insert e (dom ?st)" for a
      by (cases "a = e") (simp_all add: st(1) domIff)
    then show ?thesis by blast
  qed
  moreover have "finite (dom ?st)" using inv dom_finite by (simp add: db_inv_def)
  ultimately have card: "card (dom ?st') = Suc (card (dom ?st))" using e(1) by (simp add: domIff)
  have "unat (ht_count (ht s)) = card (dom ?st)" "ht_count (ht s) < MAX_ALLOWED" using inv by (auto simp: db_inv_def)
  then have "unat (ht_count (ht s) + 1) = card (dom ?st')"
    using card by (simp add: word_less_nat_alt MAX_ALLOWED_def unat_word_ariths)
  moreover have ti: "ttl_inv (ttl s) (mem s)" using inv by (simp add: db_inv_def)
  have e_out: "e \<notin> heap_set (ttl s)" using heap_set_live ti e(1) by (fastforce simp: ttl_inv_def)
  have "ttl_inv (ttl s) (mem s')"
  proof (rule ttl_inv_cong [OF ti])
    fix a assume "a \<in> heap_set (ttl s)"
    then have "a \<noteq> e" using e_out by auto
    from st(2) [OF this]
    show "map_option (\<lambda>e. (e_heap_index e, e_expiry e)) (?st' a) = map_option (\<lambda>e. (e_heap_index e, e_expiry e)) (?st a)"
      by (cases "?st' a"; cases "?st a") (auto simp: kvx_def)
  next
    fix a f assume a: "?st' a = Some f" "a \<notin> heap_set (ttl s)"
    show "e_heap_index f = SIZE_MAX"
    proof (cases "a = e")
      case True then show ?thesis using a st(1) x by simp
    next
      case False
      from old [OF this a(1)] a(2) ti show ?thesis by (auto simp: ttl_inv_def ttl_out_def)
    qed
  qed
  moreover have "store_ok (mem s')"
    unfolding store_ok_def
  proof (intro allI impI)
    fix a f assume a: "?st' a = Some f"
    show "a < nxt (mem s') \<and> entry_ok f"
    proof (cases "a = e")
      case True
      then show ?thesis using a st(1) x e(2) by (simp add: entry_ok_def LONG_MAX_def LONG_MIN_def)
    next
      case False
      from old [OF this a] obtain g where g: "?st a = Some g" "kvx g = kvx f" "e_heap_index g = e_heap_index f" by blast
      then have "a < nxt (mem s)" "entry_ok g" using inv by (auto simp: db_inv_def store_ok_def)
      then show ?thesis using g e(3) by (auto simp: entry_ok_def kvx_def)
    qed
  qed
  ultimately show inv': "db_inv s'" using inv s' tab count by (simp add: db_inv_def)
  have "abs_kv s' = (abs_kv s)(e_key x \<mapsto> (e_value x, e_expiry x))"
  proof (rule abs_kv_touch [OF inv inv' _ st(1)])
    show "map_option kvx (?st' a) = map_option kvx (?st a)" if "a \<noteq> e" for a
      using st(2) [OF that] by (cases "?st' a"; cases "?st a") auto
    show "a = e" if "?st a = Some f" "e_key f = e_key x" for a f
      using abs_kv_None [OF inv] fresh that by blast
  qed (use e(1) in auto)
  then show "abs_kv s' = (abs_kv s)(e_key x \<mapsto> (e_value x, -1))" using x by simp
qed

text \<open>The walks do not meet an entry that is in no list yet.\<close>

lemma find_entry_new:
  assumes "seg st p as None" "e \<notin> set as"
  shows "find_entry (st(e \<mapsto> x)) p k = find_entry st p k"
proof -
  have "seg (st(e \<mapsto> x)) p as None" using assms seg_upd by simp
  moreover have "find (\<lambda>a. key_of (st(e \<mapsto> x)) a = k) as = find (\<lambda>a. key_of st a = k) as"
    using assms(2) by (intro find_cong) auto
  ultimately show ?thesis using find_entry_seg assms(1) by metis
qed

lemma add_kv_update:
  assumes inv: "db_inv s" and t: "ents (mem s) t = Some y" "e_key y = e_key x"
    and e: "ents (mem s) e = None"
    and sn: "ents (mem sn) = (ents (mem s))(e \<mapsto> x)" "ht sn = ht s"
    and ok: "malloc_ok sn = (True, sm)"
  shows "add_kv_in_arr (string_folding_hash (e_key x)) e sn =
    Some (DB_ERR_KEY_EXISTS, put_ent sm t (y\<lparr>e_value := e_value x\<rparr>))"
proof -
  let ?i = "string_folding_hash (e_key x)" and ?st = "ents (mem s)" and ?k = "e_key x"
  have tab: "table_ok ?st (buckets (ht s))" using inv by (simp add: db_inv_def)
  obtain as where l: "bucket_list ?st ?i (buckets (ht s) ! ?i) as" using table_list [OF tab] by blast
  have sg: "seg ?st (buckets (ht s) ! ?i) as None" using l by (simp add: bucket_list_def)
  have e_as: "e \<notin> set as" using seg_dom [OF sg] e by fastforce
  have te: "t \<noteq> e" using t e by auto
  have hd: "bucket_at sn ?i = Some (buckets (ht s) ! ?i)"
    using db_inv_bucket [OF inv, of "e_key x"] sn by (simp add: bucket_at_def split: if_splits)
  have fe: "find_entry (ents (mem sn)) (buckets (ht s) ! ?i) ?k = Some (Some t)"
    using find_entry_new [OF sg e_as] find_entry_hit [OF tab t] by (simp add: sn)
  have rv: "replace_value t (e_value x) sn = Some (put_ent sm t (y\<lparr>e_value := e_value x\<rparr>))"
    using ok malloc_ok_keeps(2) [OF ok] t te sn by (simp add: replace_value_def)
  have "t \<in> set as" using l t in_bucket_key by (auto simp: bucket_list_def)
  then obtain xs ys where as: "as = xs @ t # ys" by (meson split_list)
  have "distinct (map (key_of ?st) (xs @ t # ys))" using l as unfolding bucket_list_def by blast
  then have nk: "\<forall>z\<in>set xs. key_of (ents (mem sn)) z \<noteq> ?k"
    using t e_as as by (auto simp: image_iff sn)
  obtain h where h: "buckets (ht s) ! ?i = Some h" using sg as by (cases xs) auto
  have "seg (ents (mem sn)) (Some h) (xs @ t # ys) None"
    using sg e_as seg_upd unfolding sn h as by blast
  then have fl: "find_last (ents (mem sn)) h ?k = Some t"
    by (rule find_last_hit) (use nk te t sn in auto)
  have xe: "ents (mem sn) e = Some x" and yt: "ents (mem sn) t = Some y" using sn te t by auto
  show ?thesis
    unfolding add_kv_in_arr_def using hd fe fl rv xe yt t(2) h by simp
qed

lemma add_kv_new:
  assumes inv: "db_inv s" and none: "abs_kv s (e_key x) = None" and x: "e_next x = None"
    and e: "ents (mem s) e = None"
    and sn: "ents (mem sn) = (ents (mem s))(e \<mapsto> x)" "ht sn = ht s" "nxt (mem sn) = Suc e" "ttl sn = ttl s"
    and count: "ht_count (ht s) + 1 < MAX_ALLOWED"
  shows "\<exists>s'. add_kv_in_arr (string_folding_hash (e_key x)) e sn = Some (DB_ERR_OK, s') \<and>
    table_ok (ents (mem s')) (buckets (ht s')) \<and> ents (mem s') e = Some x \<and>
    (\<forall>a. a \<noteq> e \<longrightarrow> map_option (\<lambda>f. (kvx f, e_heap_index f)) (ents (mem s') a) =
                   map_option (\<lambda>f. (kvx f, e_heap_index f)) (ents (mem s) a)) \<and>
    ht_size (ht s') = ht_size (ht s) \<and> ht_count (ht s') = ht_count (ht s) + 1 \<and> ttl s' = ttl s \<and>
    nxt (mem s') = Suc e \<and> core_only sn s'"
proof -
  let ?i = "string_folding_hash (e_key x)" and ?st = "ents (mem s)" and ?k = "e_key x"
  have tab: "table_ok ?st (buckets (ht s))" using inv by (simp add: db_inv_def)
  obtain as where l: "bucket_list ?st ?i (buckets (ht s) ! ?i) as" using table_list [OF tab] by blast
  have sg: "seg ?st (buckets (ht s) ! ?i) as None" using l by (simp add: bucket_list_def)
  have e_as: "e \<notin> set as" using seg_dom [OF sg] e by fastforce
  have miss: "\<forall>a\<in>set as. key_of ?st a \<noteq> ?k"
    using abs_kv_None [OF inv, of ?k] none seg_dom [OF sg] by fastforce
  have hd: "bucket_at sn ?i = Some (buckets (ht s) ! ?i)"
    using db_inv_bucket [OF inv, of "e_key x"] sn by (simp add: bucket_at_def split: if_splits)
  have nf: "\<not> MAX_ALLOWED \<le> ht_count (ht sn) + 1" using count sn by simp
  have xe: "ents (mem sn) e = Some x" using sn by simp
  show ?thesis
  proof (cases "buckets (ht s) ! ?i")
    case None
    have "add_kv_in_arr ?i e sn = Some (DB_ERR_OK, set_count (set_bucket sn ?i (Some e)) (ht_count (ht s) + 1))"
      unfolding add_kv_in_arr_def using hd nf xe None sn(2) by (simp add: set_bucket_def)
    moreover have "table_ok (?st(e \<mapsto> x)) ((buckets (ht s))[?i := Some e])"
      by (rule table_ok_first [OF tab e x refl None])
    ultimately show ?thesis
      using sn by (auto simp: set_bucket_def set_count_def core_only_def)
  next
    case (Some h)
    then have ne: "as \<noteq> []" using sg by auto
    then have la: "last as \<in> set as" by simp
    then obtain y where y: "?st (last as) = Some y" using seg_dom [OF sg] by blast
    have le: "last as \<noteq> e" using la e_as by auto
    have yk: "e_key y \<noteq> ?k" using miss la y by auto
    have "seg (ents (mem sn)) (Some h) as None" using sg e_as seg_upd Some by (simp add: sn)
    moreover have "\<forall>z\<in>set as. key_of (ents (mem sn)) z \<noteq> ?k" using miss e_as by (auto simp: sn)
    ultimately have fl: "find_last (ents (mem sn)) h ?k = Some (last as)" by (rule find_last_miss)
    have "add_kv_in_arr ?i e sn = Some (DB_ERR_OK,
        set_count (put_ent sn (last as) (y\<lparr>e_next := Some e\<rparr>)) (ht_count (ht s) + 1))"
      unfolding add_kv_in_arr_def using hd nf xe Some fl y yk le sn(1,2) by (simp add: put_ent_def)
    moreover have "table_ok (?st(e \<mapsto> x, last as \<mapsto> y\<lparr>e_next := Some e\<rparr>)) (buckets (ht s))"
      by (rule table_ok_append [OF tab e x refl hash_less l ne y miss])
    ultimately show ?thesis
      using sn le y by (auto simp: put_ent_def set_count_def core_only_def kvx_def)
  qed
qed

lemma add_kv_full:
  assumes inv: "db_inv s" and none: "abs_kv s (e_key x) = None"
    and e: "ents (mem s) e = None"
    and sn: "ents (mem sn) = (ents (mem s))(e \<mapsto> x)" "ht sn = ht s"
    and count: "MAX_ALLOWED \<le> ht_count (ht s) + 1"
  shows "add_kv_in_arr (string_folding_hash (e_key x)) e sn = Some (ERR_FULL, sn)"
proof -
  let ?i = "string_folding_hash (e_key x)" and ?st = "ents (mem s)"
  have tab: "table_ok ?st (buckets (ht s))" using inv by (simp add: db_inv_def)
  obtain as where l: "bucket_list ?st ?i (buckets (ht s) ! ?i) as" using table_list [OF tab] by blast
  have sg: "seg ?st (buckets (ht s) ! ?i) as None" using l by (simp add: bucket_list_def)
  have e_as: "e \<notin> set as" using seg_dom [OF sg] e by fastforce
  have "find_entry (ents (mem sn)) (buckets (ht s) ! ?i) (e_key x) = Some None"
    using find_entry_new [OF sg e_as] find_entry_miss [OF tab] abs_kv_None [OF inv] none by (simp add: sn)
  moreover have "bucket_at sn ?i = Some (buckets (ht s) ! ?i)"
    using db_inv_bucket [OF inv, of "e_key x"] sn by (simp add: bucket_at_def split: if_splits)
  ultimately show ?thesis unfolding add_kv_in_arr_def using count sn by simp
qed

end
