(* ===== verification/Hash_Write.thy ===== *)
theory Hash_Write
  imports Hash_Proof
begin

text \<open>
  The writers of \<open>hash.c\<close>: \<open>hash_insert\<close> on a new key, an existing key and a full table,
  \<open>hash_update_expiry\<close>, which removes and inserts through the laws of the expiry queue,
  and the initialisation that establishes the invariant.
\<close>

section \<open>hash\_insert\<close>

text \<open>No request for memory is refused.\<close>

definition mem_ok :: "db \<Rightarrow> bool" where
  "mem_ok s \<longleftrightarrow> (\<forall>n. alloc_ok (mem s) n)"

lemma mem_ok_core: "core_only s s' \<Longrightarrow> mem_ok s' = mem_ok s"
  by (simp add: core_only_def mem_ok_def)

definition kept_expiry :: "(string \<times> int) option \<Rightarrow> int" where
  "kept_expiry p = (case p of None \<Rightarrow> -1 | Some (v, x) \<Rightarrow> x)"

lemma kept_expiry_simps [simp]: "kept_expiry None = -1" "kept_expiry (Some (v, x)) = x"
  by (simp_all add: kept_expiry_def)

definition kv_entry :: "string \<Rightarrow> string \<Rightarrow> Entry" where
  "kv_entry k v = \<lparr>e_key = k, e_value = v, e_next = None, e_prev = None, e_expiry = -1, e_heap_index = SIZE_MAX\<rparr>"

text \<open>The state in which \<open>hash_insert\<close> calls \<open>add_kv_in_arr\<close>.\<close>

definition with_kv :: "db \<Rightarrow> string \<Rightarrow> string \<Rightarrow> db" where
  "with_kv s k v = s\<lparr>mem := (mem s)\<lparr>ents := (ents (mem s))(nxt (mem s) \<mapsto> kv_entry k v),
     nxt := Suc (nxt (mem s)), allocs := allocs (mem s) + 3\<rparr>\<rparr>"

lemma with_kv_simps [simp]:
  "ents (mem (with_kv s k v)) = (ents (mem s))(nxt (mem s) \<mapsto> kv_entry k v)"
  "nxt (mem (with_kv s k v)) = Suc (nxt (mem s))" "alloc_ok (mem (with_kv s k v)) = alloc_ok (mem s)"
  "ht (with_kv s k v) = ht s" "ttl (with_kv s k v) = ttl s" "core_only s (with_kv s k v)"
  by (simp_all add: with_kv_def core_only_def)

lemma fresh_addr: "db_inv s \<Longrightarrow> ents (mem s) (nxt (mem s)) = None"
  unfolding db_inv_def store_ok_def by (metis less_irrefl option.exhaust)

lemma hash_insert_run:
  assumes "mem_ok s" "add_kv_in_arr (string_folding_hash k) (nxt (mem s)) (with_kv s k v) = Some (res, s4)"
  shows "hash_insert k v ctx s = Some
    (if res = DB_ERR_OK then answer ctx DB_ERR_OK ''OK'' s4
     else if res = DB_ERR_KEY_EXISTS then answer ctx DB_ERR_OK ''OK'' (s4\<lparr>mem := free_entry (mem s4) (nxt (mem s))\<rparr>)
     else answer ctx res ''ERR'' (s4\<lparr>mem := free_entry (mem s4) (nxt (mem s))\<rparr>))"
proof -
  have "s\<lparr>mem := (mem s)\<lparr>allocs := Suc (Suc (Suc (allocs (mem s)))),
     ents := (ents (mem s))(nxt (mem s) \<mapsto> kv_entry k v), nxt := Suc (nxt (mem s))\<rparr>\<rparr> = with_kv s k v"
    by (simp add: with_kv_def numeral_3_eq_3)
  then show ?thesis
    using assms by (simp add: hash_insert_def malloc_ok_def alloc_def mem_ok_def new_entry_def Let_def case_answer kv_entry_def)
qed

lemma full_count: "db_inv s \<Longrightarrow> \<not> MAX_ALLOWED \<le> ht_count (ht s) + 1 \<Longrightarrow> ht_count (ht s) + 1 < MAX_ALLOWED"
  by simp

lemma hash_insert_ok:
  assumes inv: "db_inv s" and ok: "mem_ok s" and v: "length v < MAX_RESP_LEN"
  shows "\<exists>s1. hash_insert k v ctx s = Some
      (if abs_kv s k = None \<and> MAX_ALLOWED \<le> ht_count (ht s) + 1 then answer ctx ERR_FULL ''ERR'' s1
       else answer ctx DB_ERR_OK ''OK'' s1) \<and>
    db_inv s1 \<and> core_only s s1 \<and> ttl s1 = ttl s \<and>
    abs_kv s1 = (if abs_kv s k = None \<and> MAX_ALLOWED \<le> ht_count (ht s) + 1 then abs_kv s
                 else (abs_kv s)(k \<mapsto> (v, kept_expiry (abs_kv s k))))"
proof -
  let ?e = "nxt (mem s)" and ?sn = "with_kv s k v" and ?x = "kv_entry k v"
  have x: "e_key ?x = k" "e_value ?x = v" "e_next ?x = None" "e_expiry ?x = -1" "e_heap_index ?x = SIZE_MAX"
    by (simp_all add: kv_entry_def)
  have e: "ents (mem s) ?e = None" using inv by (rule fresh_addr)
  note run = hash_insert_run [OF ok]
  show ?thesis
  proof (cases "abs_kv s k")
    case (Some p)
    then obtain w t where w: "abs_kv s k = Some (w, t)" by (cases p) auto
    then obtain a y where a: "ents (mem s) a = Some y" "e_key y = k" "e_expiry y = t"
      using abs_kv_Some [OF inv] by metis
    obtain b sm where m: "malloc_ok ?sn = (b, sm)" by fastforce
    then have b: "b = True" using malloc_ok_keeps(1) [OF m] ok by (simp add: mem_ok_def)
    have add: "add_kv_in_arr (string_folding_hash k) ?e ?sn = Some (DB_ERR_KEY_EXISTS, put_ent sm a (y\<lparr>e_value := v\<rparr>))"
      using add_kv_update [OF inv a(1) _ e _ _ m [unfolded b], of ?x] a x by simp
    let ?s1 = "put_ent sm a (y\<lparr>e_value := v\<rparr>)\<lparr>mem := free_entry (mem (put_ent sm a (y\<lparr>e_value := v\<rparr>))) ?e\<rparr>"
    have ae: "a \<noteq> ?e" using a e by auto
    have keeps: "ents (mem ?s1) = (ents (mem s))(a \<mapsto> y\<lparr>e_value := v\<rparr>)" "nxt (mem s) \<le> nxt (mem ?s1)"
      "ht ?s1 = ht s" "ttl ?s1 = ttl s"
      using malloc_ok_keeps [OF m] ae e by (auto simp: put_ent_def fun_upd_twist)
    have "core_only s ?s1" using malloc_ok_keeps(6) [OF m] by (simp add: core_only_def put_ent_def with_kv_def)
    then show ?thesis
      using run [OF add] w put_value_keeps [OF inv a(1) v keeps] a keeps(4)
      by (intro exI [of _ ?s1]) simp
  next
    case None
    show ?thesis
    proof (cases "MAX_ALLOWED \<le> ht_count (ht s) + 1")
      case True
      have add: "add_kv_in_arr (string_folding_hash k) ?e ?sn = Some (ERR_FULL, ?sn)"
        using add_kv_full [OF inv, of ?x ?e ?sn] None e True x by simp
      let ?s1 = "?sn\<lparr>mem := free_entry (mem ?sn) ?e\<rparr>"
      have keeps: "ents (mem ?s1) = ents (mem s)" "nxt (mem s) \<le> nxt (mem ?s1)" "ht ?s1 = ht s" "ttl ?s1 = ttl s"
        using e by auto
      have "core_only s ?s1" by (simp add: core_only_def with_kv_def)
      then show ?thesis using run [OF add] None True db_inv_ents [OF inv keeps] keeps(4)
        by (intro exI [of _ ?s1]) simp
    next
      case False
      then have c: "ht_count (ht s) + 1 < MAX_ALLOWED" by simp
      obtain s' where s': "add_kv_in_arr (string_folding_hash k) ?e ?sn = Some (DB_ERR_OK, s')"
        "table_ok (ents (mem s')) (buckets (ht s'))" "ents (mem s') ?e = Some ?x"
        "\<forall>a. a \<noteq> ?e \<longrightarrow> map_option (\<lambda>f. (kvx f, e_heap_index f)) (ents (mem s') a) =
                   map_option (\<lambda>f. (kvx f, e_heap_index f)) (ents (mem s) a)"
        "ht_size (ht s') = ht_size (ht s)" "ht_count (ht s') = ht_count (ht s) + 1" "ttl s' = ttl s"
        "nxt (mem s') = Suc ?e" "core_only ?sn s'"
        using add_kv_new [OF inv, of ?x ?e ?sn] None e c x by auto
      have keeps: "db_inv s'" "abs_kv s' = (abs_kv s)(e_key ?x \<mapsto> (e_value ?x, -1))"
        by (rule new_entry_keeps [OF inv x(4,5) _ _ c e _ _ s'(3) _ s'(2) s'(5,6,7)]; use s' v None x in simp)+
      have "core_only s s'" using s'(9) core_only_trans with_kv_simps(6) by blast
      then show ?thesis using run [OF s'(1)] None False keeps x s'(7) by (intro exI [of _ s']) simp
    qed
  qed
qed

text \<open>When the first request for memory is refused, nothing changes and nothing is answered.\<close>

lemma hash_insert_nomem:
  assumes "\<not> alloc_ok (mem s) (allocs (mem s))"
  shows "hash_insert k v ctx s = Some (DB_ERR_NOMEM, ctx, snd (malloc_ok s))"
  using assms by (simp add: hash_insert_def malloc_ok_def alloc_def)

section \<open>hash\_update\_expiry\<close>

lemma put_expiry_keeps:
  assumes inv: "db_inv s" and t: "ents (mem s) t = Some y" and i: "e_heap_index y = SIZE_MAX"
    and x: "LONG_MIN \<le> x" "x \<le> LONG_MAX"
  shows "db_inv (put_ent s t (y\<lparr>e_expiry := x\<rparr>))"
    and "abs_kv (put_ent s t (y\<lparr>e_expiry := x\<rparr>)) = (abs_kv s)(e_key y \<mapsto> (e_value y, x))"
proof -
  let ?st = "ents (mem s)" and ?s' = "put_ent s t (y\<lparr>e_expiry := x\<rparr>)"
  have st': "ents (mem ?s') = ?st(t \<mapsto> y\<lparr>e_expiry := x\<rparr>)" "ht ?s' = ht s" "ttl ?s' = ttl s" "nxt (mem ?s') = nxt (mem s)"
    by (simp_all add: put_ent_def)
  have tab: "table_ok ?st (buckets (ht s))" and ti: "ttl_inv (ttl s) (mem s)" using inv by (simp_all add: db_inv_def)
  have out: "t \<notin> heap_set (ttl s)" using heap_index_iff [OF ti t] i by blast
  have "table_ok (ents (mem ?s')) (buckets (ht s))"
    unfolding st'(1) by (rule table_ok_same [OF tab t]) simp_all
  moreover have "dom (ents (mem ?s')) = dom ?st" using t st'(1) by auto
  moreover have "ttl_inv (ttl s) (mem ?s')"
    by (rule ttl_inv_cong [OF ti])
      (use ti t i out st'(1) in \<open>auto simp: ttl_inv_def ttl_out_def split: if_splits\<close>)
  moreover have "store_ok (mem ?s')"
    using inv t i x st'(1,4) unfolding db_inv_def store_ok_def by (auto simp: entry_ok_def split: if_splits)
  ultimately show inv': "db_inv ?s'" using inv st' by (simp add: db_inv_def)
  have "abs_kv ?s' = (abs_kv s)(e_key (y\<lparr>e_expiry := x\<rparr>) \<mapsto> (e_value (y\<lparr>e_expiry := x\<rparr>), e_expiry (y\<lparr>e_expiry := x\<rparr>)))"
  proof (rule abs_kv_touch [OF inv inv'])
    show "ents (mem ?s') t = Some (y\<lparr>e_expiry := x\<rparr>)" using st'(1) by simp
    show "a = t" if "?st a = Some e" "e_key e = e_key (y\<lparr>e_expiry := x\<rparr>)" for a e
      using key_unique [OF tab that(1) t] that(2) by simp
  qed (use st'(1) t in auto)
  then show "abs_kv ?s' = (abs_kv s)(e_key y \<mapsto> (e_value y, x))" by simp
qed

text \<open>An entry taken out of the heap (if it was in), given a new time and put back.\<close>

lemma leave_heap:
  assumes inv: "db_inv s" and a: "ents (mem s) a = Some x"
  shows "\<exists>s2 y. (if e_heap_index x \<noteq> SIZE_MAX
      then heap_remove (ttl s) (mem s) a \<bind> (\<lambda>(r, h', m'). Some (s\<lparr>ttl := h', mem := m'\<rparr>)) else Some s) = Some s2 \<and>
    db_inv s2 \<and> abs_kv s2 = abs_kv s \<and> core_only s s2 \<and>
    ents (mem s2) a = Some y \<and> e_key y = e_key x \<and> e_value y = e_value x \<and> e_heap_index y = SIZE_MAX \<and>
    heap_set (ttl s2) = heap_set (ttl s) - {a}"
proof (cases "e_heap_index x = SIZE_MAX")
  case True
  have "ttl_inv (ttl s) (mem s)" using inv by (simp add: db_inv_def)
  then have "a \<notin> heap_set (ttl s)" using heap_index_iff [OF _ a] True by blast
  then show ?thesis using inv a True by auto
next
  case False
  have ti: "ttl_inv (ttl s) (mem s)" using inv by (simp add: db_inv_def)
  then have "a \<in> heap_set (ttl s)" using heap_index_iff [OF ti a] False by blast
  from ttlq.rmv_in [OF ti this] obtain h' m' where r: "heap_remove (ttl s) (mem s) a = Some (0, h', m')"
    "ttl_inv h' m'" "heap_set h' = heap_set (ttl s) - {a}" "index_only (mem s) m'" by blast
  obtain y where y: "ents m' a = Some y" "e_key y = e_key x" "e_value y = e_value x"
    using index_only_fields [OF r(4) a] by auto
  have "e_heap_index y = SIZE_MAX" using heap_index_iff [OF r(2) y(1)] r(3) by blast
  moreover have "db_inv (s\<lparr>ttl := h', mem := m'\<rparr>)" "abs_kv (s\<lparr>ttl := h', mem := m'\<rparr>) = abs_kv s"
    by (rule db_inv_heap_op [OF inv r(4,2)]; use r(3) in auto)+
  ultimately show ?thesis using r False y
    by (intro exI [of _ "s\<lparr>ttl := h', mem := m'\<rparr>"] exI [of _ y]) (auto simp: core_only_def index_only_def)
qed

lemma enter_heap:
  assumes inv: "db_inv s" and a: "ents (mem s) a = Some y" and out: "e_heap_index y = SIZE_MAX"
    and x: "e_expiry y \<noteq> LONG_MAX"
  shows "\<exists>h' m'. heap_insert (ttl s) (mem s) a = Some (if can_grow (ttl s) (mem s) then 0 else 3, h', m') \<and>
    db_inv (s\<lparr>ttl := h', mem := m'\<rparr>) \<and> abs_kv (s\<lparr>ttl := h', mem := m'\<rparr>) = abs_kv s \<and>
    core_only s (s\<lparr>ttl := h', mem := m'\<rparr>) \<and> index_only (mem s) m' \<and>
    heap_set h' = (if can_grow (ttl s) (mem s) then insert a (heap_set (ttl s)) else heap_set (ttl s))"
proof -
  have ti: "ttl_inv (ttl s) (mem s)" using inv by (simp add: db_inv_def)
  have no: "a \<notin> heap_set (ttl s)" using heap_index_iff [OF ti a] out by blast
  have "entry_live (mem s) a" using a by (simp add: entry_live_def)
  from ttlq.ins_law [OF ti this no heap_fits_inv [OF inv]] obtain h' m' where
    r: "heap_insert (ttl s) (mem s) a = Some (if can_grow (ttl s) (mem s) then 0 else 3, h', m')" "ttl_inv h' m'"
      "heap_set h' = (if can_grow (ttl s) (mem s) then insert a (heap_set (ttl s)) else heap_set (ttl s))"
      "index_only (mem s) m'" by blast
  have "db_inv (s\<lparr>ttl := h', mem := m'\<rparr>)" "abs_kv (s\<lparr>ttl := h', mem := m'\<rparr>) = abs_kv s"
    by (rule db_inv_heap_op [OF inv r(4,2)]; use r(3) a x in \<open>auto split: if_splits\<close>)+
  moreover have "core_only s (s\<lparr>ttl := h', mem := m'\<rparr>)" using r(4) by (simp add: core_only_def index_only_def)
  ultimately show ?thesis using r no by auto
qed

lemma can_grow_mem_ok: "mem_ok s \<Longrightarrow> can_grow h (mem s)"
  by (simp add: can_grow_def mem_ok_def)

lemma core_only_tick: "core_only s s' \<Longrightarrow> core_only (tick s) (tick s')"
  by (simp add: core_only_def tick_def)

text \<open>A live key is given its new time and then put into the heap.\<close>

lemma update_expiry_run:
  assumes inv: "db_inv s" and live: "live_at (time_now s) (abs_kv s k)" and t: "long_add (time_now (tick s)) d = Some t"
  obtains a e y s4 where "ents (mem s) a = Some e" "e_key e = k"
    "ents (mem s4) a = Some y" "e_key y = k" "e_expiry y = t" "e_heap_index y = SIZE_MAX"
    "db_inv s4" "abs_kv s4 = (abs_kv s)(k \<mapsto> (fst (the (abs_kv s k)), t))" "core_only (tick (tick s)) s4"
    "heap_set (ttl s4) = heap_set (ttl s) - {a}"
    "hash_update_expiry k d ctx s = heap_insert (ttl s4) (mem s4) a \<bind> (\<lambda>(res, h', m').
       Some (answer ctx res (if res \<noteq> DB_ERR_OK then ''ERR'' else ''OK'') (s4\<lparr>ttl := h', mem := m'\<rparr>)))"
proof -
  obtain a e where f: "hash_get_kv k s = Some (Some a, tick s)" "ents (mem s) a = Some e" "e_key e = k"
    "abs_kv s k = Some (e_value e, e_expiry e)"
    using find_live_ok [OF inv, of k] hash_get_kv_find_live [OF inv, of k] live by auto
  obtain s2 y where s2: "(if e_heap_index e \<noteq> SIZE_MAX
      then heap_remove (ttl (tick s)) (mem (tick s)) a \<bind> (\<lambda>(r, h', m'). Some ((tick s)\<lparr>ttl := h', mem := m'\<rparr>))
      else Some (tick s)) = Some s2" "db_inv s2" "abs_kv s2 = abs_kv s" "core_only (tick s) s2"
    "ents (mem s2) a = Some y" "e_key y = k" "e_value y = e_value e" "e_heap_index y = SIZE_MAX"
    "heap_set (ttl s2) = heap_set (ttl s) - {a}"
    using leave_heap [of "tick s" a e] inv f(2,3) by auto
  have now: "time_NULL s2 = (time_now (tick s), tick s2)"
    using s2(4) by (simp add: time_NULL_def time_now_def core_only_def)
  have lim: "LONG_MIN \<le> t" "t \<le> LONG_MAX" using t(1) by (auto simp: long_add_def split: if_splits)
  let ?s4 = "put_ent (tick s2) a (y\<lparr>e_expiry := t\<rparr>)"
  have y: "ents (mem (tick s2)) a = Some y" using s2(5) by simp
  show thesis
  proof
    show "ents (mem s) a = Some e" "e_key e = k" by (rule f)+
    show "ents (mem ?s4) a = Some (y\<lparr>e_expiry := t\<rparr>)" by (simp add: put_ent_def)
    show "db_inv ?s4" "abs_kv ?s4 = (abs_kv s)(k \<mapsto> (fst (the (abs_kv s k)), t))"
      using put_expiry_keeps [OF _ y s2(8) lim] s2(2,3,6,7) f(4) by simp_all
    show "core_only (tick (tick s)) ?s4" using core_only_tick [OF s2(4)] by (simp add: core_only_def put_ent_def)
    show "heap_set (ttl ?s4) = heap_set (ttl s) - {a}" using s2(9) by (simp add: put_ent_def)
    show "hash_update_expiry k d ctx s = heap_insert (ttl ?s4) (mem ?s4) a \<bind> (\<lambda>(res, h', m').
       Some (answer ctx res (if res \<noteq> DB_ERR_OK then ''ERR'' else ''OK'') (?s4\<lparr>ttl := h', mem := m'\<rparr>)))"
      using f(1,2) s2(1) now t(1) y
      by (simp add: hash_update_expiry_def case_answer Let_def del: bind_assoc split del: if_split cong: if_cong)
  qed (use s2 in simp_all)
qed

text \<open>The entry of the key is the one that is moved: out of the heap, and in again if there is room.\<close>

lemma hash_update_expiry_moves:
  assumes inv: "db_inv s" and live: "live_at (time_now s) (abs_kv s k)"
    and t: "long_add (time_now (tick s)) d = Some t" "t \<noteq> LONG_MAX"
  shows "\<exists>s1 room a e e'. hash_update_expiry k d ctx s = Some
      (if room then answer ctx DB_ERR_OK ''OK'' s1 else answer ctx DB_ERR_NOMEM ''ERR'' s1) \<and>
    db_inv s1 \<and> abs_kv s1 = (abs_kv s)(k \<mapsto> (fst (the (abs_kv s k)), t)) \<and>
    core_only (tick (tick s)) s1 \<and> (mem_ok s \<longrightarrow> room) \<and>
    ents (mem s) a = Some e \<and> e_key e = k \<and> ents (mem s1) a = Some e' \<and> e_key e' = k \<and> e_expiry e' = t \<and>
    heap_set (ttl s1) = (if room then insert a (heap_set (ttl s)) else heap_set (ttl s) - {a})"
proof -
  obtain a e y s4 where s4: "ents (mem s) a = Some e" "e_key e = k"
    "ents (mem s4) a = Some y" "e_key y = k" "e_expiry y = t" "e_heap_index y = SIZE_MAX"
    "db_inv s4" "abs_kv s4 = (abs_kv s)(k \<mapsto> (fst (the (abs_kv s k)), t))" "core_only (tick (tick s)) s4"
    "heap_set (ttl s4) = heap_set (ttl s) - {a}"
    "hash_update_expiry k d ctx s = heap_insert (ttl s4) (mem s4) a \<bind> (\<lambda>(res, h', m').
       Some (answer ctx res (if res \<noteq> DB_ERR_OK then ''ERR'' else ''OK'') (s4\<lparr>ttl := h', mem := m'\<rparr>)))"
    by (rule update_expiry_run [OF inv live t(1)])
  let ?room = "can_grow (ttl s4) (mem s4)"
  obtain h' m' where r: "heap_insert (ttl s4) (mem s4) a = Some (if ?room then 0 else 3, h', m')"
    "db_inv (s4\<lparr>ttl := h', mem := m'\<rparr>)" "abs_kv (s4\<lparr>ttl := h', mem := m'\<rparr>) = abs_kv s4" "core_only s4 (s4\<lparr>ttl := h', mem := m'\<rparr>)"
    "index_only (mem s4) m'" "heap_set h' = (if ?room then insert a (heap_set (ttl s4)) else heap_set (ttl s4))"
    using enter_heap [OF s4(7,3,6)] s4(5) t(2) by auto
  obtain e' where e': "ents m' a = Some e'" "e_key e' = k" "e_expiry e' = t"
    using index_only_fields [OF r(5) s4(3)] s4(4,5) by auto
  have "?room" if "mem_ok s"
    using can_grow_mem_ok mem_ok_core [OF s4(9)] that by (simp add: mem_ok_def)
  then show ?thesis using s4 r e' core_only_trans [OF s4(9) r(4)]
    by (intro exI [of _ "s4\<lparr>ttl := h', mem := m'\<rparr>"] exI [of _ ?room] exI [of _ a] exI [of _ e] exI [of _ e']) simp
qed

lemma hash_update_expiry_ok:
  assumes "db_inv s" "live_at (time_now s) (abs_kv s k)" "long_add (time_now (tick s)) d = Some t" "t \<noteq> LONG_MAX"
  shows "\<exists>s1 room. hash_update_expiry k d ctx s = Some
      (if room then answer ctx DB_ERR_OK ''OK'' s1 else answer ctx DB_ERR_NOMEM ''ERR'' s1) \<and>
    db_inv s1 \<and> abs_kv s1 = (abs_kv s)(k \<mapsto> (fst (the (abs_kv s k)), t)) \<and>
    core_only (tick (tick s)) s1 \<and> (mem_ok s \<longrightarrow> room)"
  using hash_update_expiry_moves [OF assms, of ctx] by blast

lemma hash_update_expiry_gone:
  assumes inv: "db_inv s" and dead: "\<not> live_at (time_now s) (abs_kv s k)"
  shows "\<exists>s1. hash_update_expiry k d ctx s = Some (answer ctx DB_ERR_KEY_NOTEXIST ''NULL'' s1) \<and> after_access k s s1"
  using find_live_ok [OF inv, of k] hash_get_kv_find_live [OF inv, of k] dead
  by (auto simp: hash_update_expiry_def case_answer)

text \<open>
  The time \<open>LONG_MAX\<close>: the entry goes into the heap, but \<open>hash_delete\<close> takes it for one that is not
  there and frees it in place.
\<close>

lemma delete_skips_heap:
  assumes tab: "table_ok (ents (mem s)) (buckets (ht s))" and c: "ents (mem s) c = Some x" "e_key x = k" "e_expiry x = LONG_MAX"
  shows "\<exists>s1. hash_delete k ctx s = Some (answer ctx DB_ERR_OK ''OK'' s1) \<and> ttl s1 = ttl s \<and> ents (mem s1) c = None"
proof -
  let ?i = "string_folding_hash k" and ?st = "ents (mem s)"
  obtain as where l: "bucket_list ?st ?i (buckets (ht s) ! ?i) as" using table_list [OF tab] by blast
  have sg: "seg ?st (buckets (ht s) ! ?i) as None" using l by (simp add: bucket_list_def)
  have "c \<in> set as" using l c(1) in_bucket_key c(2) by (auto simp: bucket_list_def)
  then obtain xs ys where as: "as = xs @ c # ys" by (meson split_list)
  have "distinct (map (key_of ?st) (xs @ c # ys))" using l as unfolding bucket_list_def by blast
  then have nk: "\<forall>y\<in>set xs. key_of ?st y \<noteq> k" using c by (auto simp: image_iff)
  have fp: "find_prev ?st None (buckets (ht s) ! ?i) k = Some (if xs = [] then None else Some (last xs), Some c)"
    using find_prev_seg [of ?st _ xs c ys k] sg as nk c by simp
  have pd: "xs \<noteq> [] \<Longrightarrow> \<exists>y. ?st (last xs) = Some y" using seg_dom [OF sg, of "last xs"] as by auto
  have "bucket_at s ?i = Some (buckets (ht s) ! ?i)" using tab by (simp add: table_ok_def bucket_at_def)
  then show ?thesis using fp c pd
    by (cases "xs = []") (auto simp: hash_delete_def case_answer set_bucket_def set_count_def put_ent_def free_entry_def)
qed

lemma expiry_max_dangles:
  assumes inv: "db_inv s" and live: "live_at (time_now s) (abs_kv s k)" and mo: "mem_ok s"
    and t: "long_add (time_now (tick s)) d = Some LONG_MAX"
  shows "\<exists>s1 s2 a. hash_update_expiry k d ctx s = Some (answer ctx DB_ERR_OK ''OK'' s1) \<and>
    hash_delete k ctx' s1 = Some (answer ctx' DB_ERR_OK ''OK'' s2) \<and> a \<in> heap_set (ttl s2) \<and> ents (mem s2) a = None"
proof -
  obtain a y s4 where s4: "ents (mem s4) a = Some y" "e_key y = k" "e_expiry y = LONG_MAX" "e_heap_index y = SIZE_MAX"
    "db_inv s4" "core_only (tick (tick s)) s4"
    "hash_update_expiry k d ctx s = heap_insert (ttl s4) (mem s4) a \<bind> (\<lambda>(res, h', m').
       Some (answer ctx res (if res \<noteq> DB_ERR_OK then ''ERR'' else ''OK'') (s4\<lparr>ttl := h', mem := m'\<rparr>)))"
    by (rule update_expiry_run [OF inv live t])
  have room: "can_grow (ttl s4) (mem s4)" using can_grow_mem_ok mem_ok_core [OF s4(6)] mo by (simp add: mem_ok_def)
  have ti: "ttl_inv (ttl s4) (mem s4)" using s4(5) by (simp add: db_inv_def)
  have "a \<notin> heap_set (ttl s4)" using heap_index_iff [OF ti s4(1)] s4(4) by blast
  moreover have "entry_live (mem s4) a" using s4(1) by (simp add: entry_live_def)
  ultimately obtain h' m' where r: "heap_insert (ttl s4) (mem s4) a = Some (0, h', m')" "a \<in> heap_set h'" "index_only (mem s4) m'"
    using ttlq.ins_law [OF ti _ _ heap_fits_inv [OF s4(5)], of a] room by auto
  let ?s1 = "s4\<lparr>ttl := h', mem := m'\<rparr>"
  have "table_ok (ents (mem ?s1)) (buckets (ht ?s1))"
    using table_ok_index_only [OF r(3)] s4(5) by (simp add: db_inv_def)
  moreover obtain z where "ents (mem ?s1) a = Some z" "e_key z = k" "e_expiry z = LONG_MAX"
    using index_only_fields [OF r(3) s4(1)] s4(2,3) by auto
  ultimately obtain s2 where "hash_delete k ctx' ?s1 = Some (answer ctx' DB_ERR_OK ''OK'' s2)" "ttl s2 = h'" "ents (mem s2) a = None"
    using delete_skips_heap [of ?s1 a z k ctx'] by auto
  then show ?thesis using s4(7) r(1,2) by auto
qed

section \<open>The first state\<close>

lemma ttl_inv_empty: "ents m = (\<lambda>a. None) \<Longrightarrow> ttl_inv empty_heap m"
  by (simp add: ttl_inv_def ttl_wf_def ttl_out_def ord_upto_def empty_heap_def SIZE_MAX_def)

lemma ht_init_run: "mem_ok s \<Longrightarrow> ht_init s = Some (True, snd (malloc_ok (snd (malloc_ok s)))\<lparr>ht := empty_table\<rparr>)"
  by (simp add: ht_init_def malloc_ok_def alloc_def mem_ok_def)

lemma ttl_init_run: "mem_ok s \<Longrightarrow> ttl_init s = Some (snd (malloc_ok (snd (malloc_ok s)))\<lparr>ttl := empty_heap\<rparr>)"
  by (simp add: ttl_init_def malloc_ok_def alloc_def mem_ok_def)

lemma table_ok_empty: "table_ok (\<lambda>a. None) (replicate MOD None)"
  by (simp add: table_ok_def bucket_list_def in_bucket_def exI [of _ "[]"])

lemma init_keeps:
  assumes "ents (mem s) = (\<lambda>a. None)" "ht s = empty_table" "ttl s = empty_heap"
  shows "db_inv s" and "abs_kv s = (\<lambda>k. None)"
proof -
  show "db_inv s"
    using assms table_ok_empty ttl_inv_empty [OF assms(1)]
    by (simp add: db_inv_def empty_table_def store_ok_def MAX_ALLOWED_def)
  then show "abs_kv s = (\<lambda>k. None)" using assms(1) by (intro ext abs_kv_miss) auto
qed

end
