(* ===== verification/Request_Spec.thy ===== *)
theory Request_Spec
  imports Db Hash_Write
begin

text \<open>
  What the database promises to a client, without table, heap and memory: a map from keys
  to values with expiry times, a clock of which only the readings matter, and for every
  request the return code, the text and the new map. At the end of the theory, the
  proof that \<open>processCommand\<close> keeps the promise.
\<close>

section \<open>The abstract database\<close>

text \<open>The map and the number of clock readings so far.\<close>

type_synonym spec_state = "kvmap \<times> nat"

text \<open>What a context holds after an answer: an empty text is no answer.\<close>

definition told :: "err_t \<Rightarrow> string \<Rightarrow> err_t \<times> string" where
  "told r msg = (if msg = [] then (DB_ERR_OK, []) else (r, msg))"

text \<open>An access: whether the key is there, after dropping it if its time has come.\<close>

definition sp_visit :: "(nat \<Rightarrow> int) \<Rightarrow> string \<Rightarrow> spec_state \<Rightarrow> bool \<times> spec_state" where
  "sp_visit clk k = (\<lambda>(m, t). case m k of
      None \<Rightarrow> (False, (m, t))
    | Some p \<Rightarrow> if live_at (clk t) (Some p) then (True, (m, Suc t)) else (False, (m(k := None), Suc t)))"

definition sp_full :: "kvmap \<Rightarrow> bool" where
  "sp_full m \<longleftrightarrow> LONG_MAX \<le> int (card (dom m)) + 1"

definition sp_set :: "string \<Rightarrow> string \<Rightarrow> spec_state \<Rightarrow> (err_t \<times> string) \<times> spec_state" where
  "sp_set k v = (\<lambda>(m, t).
     if m k = None \<and> sp_full m then ((ERR_FULL, ''ERR''), (m, t))
     else ((DB_ERR_OK, ''OK''), (m(k \<mapsto> (v, kept_expiry (m k))), t)))"

definition sp_get :: "(nat \<Rightarrow> int) \<Rightarrow> string \<Rightarrow> spec_state \<Rightarrow> (err_t \<times> string) \<times> spec_state" where
  "sp_get clk k st =
     (let (b, st') = sp_visit clk k st
      in (if b then told DB_ERR_OK (fst (the (fst st k))) else (DB_ERR_KEY_NOTEXIST, ''ERR''), st'))"

definition sp_ttl :: "(nat \<Rightarrow> int) \<Rightarrow> string \<Rightarrow> spec_state \<Rightarrow> (err_t \<times> string) \<times> spec_state" where
  "sp_ttl clk k st =
     (let (b, st') = sp_visit clk k st; x = snd (the (fst st k))
      in (if b then (DB_ERR_OK, if x = -1 then RED @ ''NULL'' @ RESET else show_zu x)
          else (DB_ERR_KEY_NOTEXIST, RED @ ''ERR'' @ RESET), st'))"

definition sp_exists :: "(nat \<Rightarrow> int) \<Rightarrow> string \<Rightarrow> spec_state \<Rightarrow> (err_t \<times> string) \<times> spec_state" where
  "sp_exists clk k st =
     (let (b, st') = sp_visit clk k st
      in (if b then (DB_ERR_OK, BOLD @ GREEN @ ''TRUE'' @ RESET)
          else (DB_ERR_KEY_NOTEXIST, BOLD @ RED @ ''FALSE'' @ RESET), st'))"

definition sp_delete :: "string \<Rightarrow> spec_state \<Rightarrow> (err_t \<times> string) \<times> spec_state" where
  "sp_delete k = (\<lambda>(m, t).
     (if m k = None then (DB_ERR_KEY_NOTEXIST, ''ERR'') else (DB_ERR_OK, ''OK''), (m(k := None), t)))"

text \<open>A key that is there gets the time of the third reading plus \<open>d\<close>.\<close>

definition sp_expire :: "(nat \<Rightarrow> int) \<Rightarrow> string \<Rightarrow> int \<Rightarrow> spec_state \<Rightarrow> (err_t \<times> string) \<times> spec_state" where
  "sp_expire clk k d st =
     (let (b, st1) = sp_visit clk k st
      in if \<not> b then ((DB_ERR_KEY_NOTEXIST, BOLD @ RED @ ''FALSE'' @ RESET), st1)
         else let (b', m2, t2) = sp_visit clk k st1
           in if \<not> b' then ((DB_ERR_KEY_NOTEXIST, ''NULL''), (m2, t2))
              else ((DB_ERR_OK, ''OK''), (m2(k \<mapsto> (fst (the (m2 k)), clk t2 + d)), Suc t2)))"

text \<open>The commands, by the words of the request.\<close>

definition spec_request :: "(nat \<Rightarrow> int) \<Rightarrow> string list \<Rightarrow> spec_state \<Rightarrow> (err_t \<times> string) \<times> spec_state" where
  "spec_request clk ws st = (case ws of [] \<Rightarrow> ((DB_ERR_OK, []), st) | w # args \<Rightarrow>
     if strcaseeq ''HELP'' w then
       ((if args = [] then (DB_ERR_HELP, help_text usages) else (DB_ERR_OK, [])), st)
     else if strcaseeq ''SET'' w then
       (case args of [k, v] \<Rightarrow> sp_set k v st | _ \<Rightarrow> ((DB_ERR_INVALID_ARGS, RED @ ''ERR'' @ RESET), st))
     else if strcaseeq ''EXISTS'' w then
       (case args of [k] \<Rightarrow> sp_exists clk k st
        | _ \<Rightarrow> ((DB_ERR_INVALID_ARGS, RED @ ''Incorrect number of args passed, run HELP EXISTS'' @ RESET), st))
     else if strcaseeq ''GET'' w then
       (case args of [] \<Rightarrow> ((DB_ERR_INVALID_ARGS, RED @ ''Incorrect number of args passed, run HELP GET'' @ RESET), st)
        | [k] \<Rightarrow> sp_get clk k st
        | [k, x] \<Rightarrow> if strcaseeq x ''ex'' then sp_ttl clk k st else ((DB_ERR_OK, []), st)
        | _ \<Rightarrow> ((DB_ERR_OK, []), st))
     else if strcaseeq ''DELETE'' w then
       (case args of [k] \<Rightarrow> sp_delete k st | _ \<Rightarrow> ((DB_ERR_INVALID_ARGS, ''ERR''), st))
     else if strcaseeq ''EXPIRE'' w then
       (case args of [k, x] \<Rightarrow> sp_expire clk k (atol x) st | _ \<Rightarrow> ((DB_ERR_INVALID_ARGS, ''ERR''), st))
     else if strcaseeq ''SAVE'' w then
       ((if args = [] then DB_ERR_OK else DB_ERR_INVALID_ARGS, ''OK''), st)
     else if strcaseeq ''EXIT'' w then
       ((if args = [] then (DB_ERR_EXIT, RED @ BOLD @ ''Bye...'' @ RESET)
         else (DB_ERR_INVALID_ARGS, RED @ ''ERR'' @ RESET)), st)
     else if strcaseeq ''SHUTDOWN'' w then
       ((if args = [] then (DB_ERR_SHUTDOWN, RED @ BOLD @ ''Goodbye...'' @ RESET)
         else (DB_ERR_INVALID_ARGS, RED @ ''ERR'' @ RESET)), st)
     else ((DB_ERR_CMD_NOTEXIST, ''ERR''), st))"

text \<open>
  The requests the promise covers: a request has a word; a help topic is short enough for
  its buffer; a new expiry stays below the end of the range of \<open>time_t\<close>; \<open>SAVE\<close> without
  arguments is treated on its own, with the save file.
\<close>

definition request_ok :: "nat \<Rightarrow> (nat \<Rightarrow> int) \<Rightarrow> string list \<Rightarrow> nat \<Rightarrow> bool" where
  "request_ok sl clk ws t \<longleftrightarrow> ws \<noteq> [] \<and> ws ! 0 \<noteq> [] \<and>
     (strcaseeq ''HELP'' (ws ! 0) \<and> length ws = 2 \<longrightarrow> length (ws ! 1) < 8 + sl) \<and>
     (strcaseeq ''EXPIRE'' (ws ! 0) \<and> length ws = 3 \<longrightarrow>
        LONG_MIN \<le> clk (t + 2) + atol (ws ! 2) \<and> clk (t + 2) + atol (ws ! 2) < LONG_MAX) \<and>
     \<not> (strcaseeq ''SAVE'' (ws ! 0) \<and> length ws = 1)"

section \<open>Abstraction\<close>

definition spec_of :: "db \<Rightarrow> spec_state" where
  "spec_of s = (abs_kv s, ticks (sys s))"

definition spec_clock :: "db \<Rightarrow> nat \<Rightarrow> int" where
  "spec_clock s = clock (sys s)"

text \<open>What no request changes: the clock, the supply of memory, the layout of buffers.\<close>

definition same_env :: "db \<Rightarrow> db \<Rightarrow> bool" where
  "same_env s s' \<longleftrightarrow> spec_clock s' = spec_clock s \<and> mem_ok s' = mem_ok s \<and> slack s' = slack s \<and>
     host_config s' = host_config s"

lemma same_env_refl [simp]: "same_env s s"
  by (simp add: same_env_def)

lemma same_env_trans: "same_env s s' \<Longrightarrow> same_env s' s'' \<Longrightarrow> same_env s s''"
  by (simp add: same_env_def)

lemma same_env_core: "core_only s s' \<Longrightarrow> same_env s s'"
  by (simp add: same_env_def core_only_def spec_clock_def mem_ok_def)

lemma same_env_simps [simp]:
  "same_env s (tick s)" "same_env s (s\<lparr>SILENT := b\<rparr>)" "same_env s (send_info_to_user d s)"
  by (simp_all add: same_env_def spec_clock_def mem_ok_def tick_def)

lemma spec_of_simps [simp]:
  "spec_of (s\<lparr>SILENT := b\<rparr>) = spec_of s" "spec_of (send_info_to_user d s) = spec_of s"
  by (simp_all add: spec_of_def)

lemma sp_full_count: "db_inv s \<Longrightarrow> sp_full (abs_kv s) \<longleftrightarrow> MAX_ALLOWED \<le> ht_count (ht s) + 1"
proof -
  assume inv: "db_inv s"
  then have lt: "unat (ht_count (ht s)) < 9223372036854775807"
    by (simp add: db_inv_def MAX_ALLOWED_def word_less_nat_alt)
  have "unat (ht_count (ht s) + 1) = unat (ht_count (ht s)) + 1"
    using lt by (simp add: unat_word_ariths)
  then show ?thesis
    using card_dom_abs [OF inv] uint_nat [of "ht_count (ht s)"]
    by (simp add: sp_full_def MAX_ALLOWED_def LONG_MAX_def word_le_nat_alt del: of_nat_unat)
qed

text \<open>An access of the code is an access of the specification.\<close>

lemma after_access_visit:
  assumes "after_access k s s'"
  shows "sp_visit (spec_clock s) k (spec_of s) = (live_at (time_now s) (abs_kv s k), spec_of s')"
    and "same_env s s'" and "db_inv s'"
proof -
  have a: "abs_kv s' = access_map k s" "core_only (accessed k s) s'" "db_inv s'"
    using assms by (auto simp: after_access_def)
  have "ticks (sys s') = (if abs_kv s k = None then ticks (sys s) else Suc (ticks (sys s)))"
    using a(2) by (auto simp: core_only_def accessed_def tick_def)
  moreover have "(abs_kv s)(k := None) = abs_kv s" if "abs_kv s k = None" using that by auto
  ultimately show "sp_visit (spec_clock s) k (spec_of s) = (live_at (time_now s) (abs_kv s k), spec_of s')"
    using a(1) by (auto simp: sp_visit_def spec_of_def access_map_def spec_clock_def time_now_def split: option.splits)
  have "same_env s (accessed k s)"
    by (auto simp: accessed_def same_env_def spec_clock_def mem_ok_def tick_def)
  then show "same_env s s'" using same_env_core [OF a(2)] same_env_trans by blast
  show "db_inv s'" by (rule a(3))
qed

end
