(* ===== verification/Simulation.thy ===== *)
theory Simulation
  imports Prelude
begin

text \<open>
  Forward simulation for deterministic programs that answer requests: the interface
  between a component and its specification. One step that agrees with the specification
  is assumed; sequences of requests are derived.
\<close>

fun run_steps :: "('q \<Rightarrow> 's \<Rightarrow> ('o \<times> 's) option) \<Rightarrow> 'q list \<Rightarrow> 's \<Rightarrow> ('o list \<times> 's) option" where
  "run_steps step [] s = Some ([], s)"
| "run_steps step (q # qs) s = do {
     (out, s1) \<leftarrow> step q s;
     (outs, s2) \<leftarrow> run_steps step qs s1;
     Some (out # outs, s2) }"

fun run_spec :: "('q \<Rightarrow> 'a \<Rightarrow> 'o \<times> 'a) \<Rightarrow> 'q list \<Rightarrow> 'a \<Rightarrow> 'o list \<times> 'a" where
  "run_spec spec [] a = ([], a)"
| "run_spec spec (q # qs) a =
     (let (out, a1) = spec q a; (outs, a2) = run_spec spec qs a1 in (out # outs, a2))"

text \<open>Every request is admissible in the specified state in which it arrives.\<close>

fun all_ok :: "('q \<Rightarrow> 'a \<Rightarrow> bool) \<Rightarrow> ('q \<Rightarrow> 'a \<Rightarrow> 'o \<times> 'a) \<Rightarrow> 'q list \<Rightarrow> 'a \<Rightarrow> bool" where
  "all_ok ok spec [] a = True"
| "all_ok ok spec (q # qs) a = (ok q a \<and> all_ok ok spec qs (snd (spec q a)))"

locale simulation =
  fixes step :: "'q \<Rightarrow> 's \<Rightarrow> ('o \<times> 's) option"
    and inv :: "'s \<Rightarrow> bool"
    and env :: "'s \<Rightarrow> 'e"
    and abs :: "'s \<Rightarrow> 'a"
    and ok :: "'e \<Rightarrow> 'q \<Rightarrow> 'a \<Rightarrow> bool"
    and spec :: "'e \<Rightarrow> 'q \<Rightarrow> 'a \<Rightarrow> 'o \<times> 'a"
  assumes step_law: "inv s \<Longrightarrow> ok (env s) q (abs s) \<Longrightarrow>
    \<exists>s'. step q s = Some (fst (spec (env s) q (abs s)), s') \<and> inv s' \<and> env s' = env s \<and>
      abs s' = snd (spec (env s) q (abs s))"
begin

lemma run_refines:
  assumes "inv s" "all_ok (ok (env s)) (spec (env s)) qs (abs s)"
  shows "\<exists>s'. run_steps step qs s = Some (fst (run_spec (spec (env s)) qs (abs s)), s') \<and> inv s' \<and>
    env s' = env s \<and> abs s' = snd (run_spec (spec (env s)) qs (abs s))"
  using assms
proof (induction qs arbitrary: s)
  case (Cons q qs)
  then obtain s1 where s1: "step q s = Some (fst (spec (env s) q (abs s)), s1)" "inv s1" "env s1 = env s"
    "abs s1 = snd (spec (env s) q (abs s))"
    using step_law [of s q] by auto
  then have "all_ok (ok (env s1)) (spec (env s1)) qs (abs s1)" using Cons.prems(2) by simp
  from Cons.IH [OF s1(2) this] obtain s2 where s2:
    "run_steps step qs s1 = Some (fst (run_spec (spec (env s)) qs (abs s1)), s2)" "inv s2" "env s2 = env s"
    "abs s2 = snd (run_spec (spec (env s)) qs (abs s1))" by (auto simp: s1(3))
  show ?case using s1(1) s2 by (auto simp: s1(4) split: prod.splits)
qed auto

text \<open>What a client sees depends on the abstract state only, not on how it is stored.\<close>

lemma run_determined:
  assumes "inv s" "inv t" "env s = env t" "abs s = abs t" "all_ok (ok (env s)) (spec (env s)) qs (abs s)"
  shows "map_option fst (run_steps step qs s) = map_option fst (run_steps step qs t)"
  using run_refines [OF assms(1,5)] run_refines [OF assms(2), of qs] assms(3,4,5) by auto

end

end
