(* ===== verification/Request_Proof.thy ===== *)
theory Request_Proof
  imports Request_Spec Simulation
begin

text \<open>
  The refinement: run on a database with the invariant, \<open>processCommand\<close> returns, records in
  the context what the specification says, keeps the invariant and leads to a database
  whose abstraction is the specified one. First the operations of \<open>hash.c\<close> as the handlers
  call them, then the handlers, then the whole request.
\<close>

definition blank :: "cmd_ctx \<Rightarrow> bool" where
  "blank c \<longleftrightarrow> ctx_resp c = [] \<and> ctx_status c = DB_ERR_OK"

definition meets :: "cmd_ctx \<Rightarrow> db \<Rightarrow> (err_t \<times> string) \<times> spec_state \<Rightarrow> (err_t \<times> cmd_ctx option \<times> db) option \<Rightarrow> bool" where
  "meets c s q res \<longleftrightarrow> (\<exists>r s'. res = Some (r, Some (c\<lparr>ctx_resp := snd (fst q), ctx_status := fst (fst q)\<rparr>), s') \<and>
     db_inv s' \<and> same_env s s' \<and> spec_of s' = snd q)"

lemma answer_blank: "blank c \<Longrightarrow>
  answer (Some c) r msg s = (r, Some (c\<lparr>ctx_resp := snd (told r msg), ctx_status := fst (told r msg)\<rparr>), s)"
  by (simp add: answer_def fill_cmd_ctx_def told_def blank_def)

lemma answer_msg: "msg \<noteq> [] \<Longrightarrow> answer (Some c) r msg s = (r, Some (c\<lparr>ctx_resp := msg, ctx_status := r\<rparr>), s)"
  by (simp add: answer_def fill_cmd_ctx_def)

lemma meets_answer:
  "blank c \<Longrightarrow> db_inv s' \<Longrightarrow> same_env s s' \<Longrightarrow> q = (told r msg, spec_of s') \<Longrightarrow>
    meets c s q (Some (answer (Some c) r msg s'))"
  by (auto simp: meets_def answer_blank)

lemma meets_tail:
  assumes "meets c s q m"
  shows "meets c s q (m \<bind> (\<lambda>(r, c', s'). Some (answer c' r [] s')))"
  using assms by (auto simp: meets_def)

lemma meets_env:
  assumes "same_env s0 s" "meets c s q m"
  shows "meets c s0 q m"
  using assms same_env_trans unfolding meets_def by blast

lemma told_msg [simp]: "msg \<noteq> [] \<Longrightarrow> told r msg = (r, msg)"
  by (simp add: told_def)

section \<open>The table\<close>

lemma meets_set:
  assumes "db_inv s" "mem_ok s" "length v < MAX_RESP_LEN" "blank c"
  shows "meets c s (sp_set k v (spec_of s)) (hash_insert k v (Some c) s)"
proof -
  obtain s1 where s1: "hash_insert k v (Some c) s = Some
      (if abs_kv s k = None \<and> MAX_ALLOWED \<le> ht_count (ht s) + 1 then answer (Some c) ERR_FULL ''ERR'' s1
       else answer (Some c) DB_ERR_OK ''OK'' s1)" "db_inv s1" "core_only s s1"
    "abs_kv s1 = (if abs_kv s k = None \<and> MAX_ALLOWED \<le> ht_count (ht s) + 1 then abs_kv s
                 else (abs_kv s)(k \<mapsto> (v, kept_expiry (abs_kv s k))))"
    using hash_insert_ok [OF assms(1,2,3)] by blast
  have "ticks (sys s1) = ticks (sys s)" using s1(3) by (simp add: core_only_def)
  then show ?thesis
    using s1 same_env_core [OF s1(3)] sp_full_count [OF assms(1)] assms(4)
    by (auto simp: sp_set_def spec_of_def intro!: meets_answer)
qed

lemma meets_get:
  assumes "db_inv s" "blank c"
  shows "meets c s (sp_get (spec_clock s) k (spec_of s)) (hash_get k (Some c) s)"
proof -
  obtain s1 where s1: "after_access k s s1" "hash_get k (Some c) s = Some
    (if live_at (time_now s) (abs_kv s k) then answer (Some c) DB_ERR_OK (fst (the (abs_kv s k))) s1
     else answer (Some c) DB_ERR_KEY_NOTEXIST ''ERR'' s1)"
    using hash_get_ok [OF assms(1)] by blast
  show ?thesis
    using s1(2) after_access_visit [OF s1(1)] assms(2)
    by (auto simp: sp_get_def Let_def intro!: meets_answer) (auto simp: spec_of_def)
qed

lemma meets_ttl:
  assumes "db_inv s" "blank c"
  shows "meets c s (sp_ttl (spec_clock s) k (spec_of s)) (hash_get_expiry k (Some c) s)"
proof -
  obtain s1 where s1: "after_access k s s1" "hash_get_expiry k (Some c) s = Some
    (if live_at (time_now s) (abs_kv s k)
     then answer (Some c) DB_ERR_OK (let x = snd (the (abs_kv s k)) in if x \<noteq> -1 then show_zu x else RED @ ''NULL'' @ RESET) s1
     else answer (Some c) DB_ERR_KEY_NOTEXIST (RED @ ''ERR'' @ RESET) s1)"
    using hash_get_expiry_ok [OF assms(1)] by blast
  have "fst (spec_of s) = abs_kv s" by (simp add: spec_of_def)
  then show ?thesis
    using s1(2) after_access_visit [OF s1(1)] assms(2)
    by (auto simp: sp_ttl_def Let_def show_zu_def intro!: meets_answer)
qed

lemma meets_exists:
  assumes "db_inv s" "blank c"
  shows "meets c s (sp_exists (spec_clock s) k (spec_of s)) (hash_exists k (Some c) s)"
proof -
  obtain s1 where s1: "after_access k s s1" "hash_exists k (Some c) s = Some
    (if live_at (time_now s) (abs_kv s k) then answer (Some c) DB_ERR_OK (BOLD @ GREEN @ ''TRUE'' @ RESET) s1
     else answer (Some c) DB_ERR_KEY_NOTEXIST (BOLD @ RED @ ''FALSE'' @ RESET) s1)"
    using hash_exists_ok [OF assms(1)] by blast
  show ?thesis
    using s1(2) after_access_visit [OF s1(1)] assms(2)
    by (auto simp: sp_exists_def Let_def intro!: meets_answer)
qed

lemma meets_delete:
  assumes "db_inv s" "blank c"
  shows "meets c s (sp_delete k (spec_of s)) (hash_delete k (Some c) s)"
proof -
  obtain s1 where s1: "hash_delete k (Some c) s =
      Some (answer (Some c) (if abs_kv s k = None then DB_ERR_KEY_NOTEXIST else DB_ERR_OK)
                      (if abs_kv s k = None then ''ERR'' else ''OK'') s1)"
    "db_inv s1" "abs_kv s1 = (abs_kv s)(k := None)" "core_only s s1"
    using hash_delete_ok [OF assms(1)] by blast
  have "ticks (sys s1) = ticks (sys s)" using s1(4) by (simp add: core_only_def)
  then show ?thesis
    using s1 same_env_core [OF s1(4)] assms(2)
    by (auto simp: sp_delete_def spec_of_def intro!: meets_answer)
qed

lemma told_visit_False: "sp_visit clk k st = (False, st') \<Longrightarrow> fst st' k = None"
  by (cases st) (auto simp: sp_visit_def split: option.splits if_splits)

text \<open>The part of \<open>EXPIRE\<close> after the silent question whether the key exists.\<close>

lemma meets_update_expiry:
  assumes inv: "db_inv s" and ok: "mem_ok s" and c: "ctx_conn c = ctx_conn c0"
    and t: "LONG_MIN \<le> spec_clock s (Suc (ticks (sys s))) + d" "spec_clock s (Suc (ticks (sys s))) + d < LONG_MAX"
  shows "meets c0 s
    (let (b', m2, t2) = sp_visit (spec_clock s) k (spec_of s)
     in if \<not> b' then ((DB_ERR_KEY_NOTEXIST, ''NULL''), (m2, t2))
        else ((DB_ERR_OK, ''OK''), (m2(k \<mapsto> (fst (the (m2 k)), spec_clock s t2 + d)), Suc t2)))
    (hash_update_expiry k d (Some c) s)"
proof -
  have same: "c\<lparr>ctx_resp := m, ctx_status := r\<rparr> = c0\<lparr>ctx_resp := m, ctx_status := r\<rparr>" for m r
    using c by (cases c; cases c0) simp
  show ?thesis
  proof (cases "live_at (time_now s) (abs_kv s k)")
    case True
    have now: "time_now (tick s) = spec_clock s (Suc (ticks (sys s)))"
      by (simp add: time_now_def tick_def spec_clock_def)
    have la: "long_add (time_now (tick s)) d = Some (time_now (tick s) + d)" "time_now (tick s) + d \<noteq> LONG_MAX"
      using t now by (auto simp: long_add_def)
    obtain s1 where s1: "hash_update_expiry k d (Some c) s = Some (answer (Some c) DB_ERR_OK ''OK'' s1)"
      "db_inv s1" "abs_kv s1 = (abs_kv s)(k \<mapsto> (fst (the (abs_kv s k)), time_now (tick s) + d))"
      "core_only (tick (tick s)) s1"
      using hash_update_expiry_ok [OF inv True la, of "Some c"] ok by auto
    have "same_env (tick (tick s)) s1" by (rule same_env_core [OF s1(4)])
    then have env: "same_env s s1" by (simp add: same_env_def spec_clock_def mem_ok_def tick_def)
    have tk: "ticks (sys s1) = Suc (Suc (ticks (sys s)))" using s1(4) by (simp add: core_only_def tick_def)
    obtain p where p: "abs_kv s k = Some p" using True by (cases "abs_kv s k") auto
    have "sp_visit (spec_clock s) k (spec_of s) = (True, (abs_kv s, Suc (ticks (sys s))))"
      using True p by (simp add: sp_visit_def spec_of_def spec_clock_def time_now_def)
    then show ?thesis
      using s1(1,2,3) env now tk same by (simp add: meets_def spec_of_def answer_msg)
  next
    case False
    obtain s1 where s1: "hash_update_expiry k d (Some c) s = Some (answer (Some c) DB_ERR_KEY_NOTEXIST ''NULL'' s1)"
      "after_access k s s1"
      using hash_update_expiry_gone [OF inv False] by blast
    then show ?thesis
      using after_access_visit [OF s1(2)] False same
      by (simp add: meets_def answer_msg spec_of_def)
  qed
qed

section \<open>The handlers\<close>

text \<open>A handler that answers at once, perhaps after a line on the terminal.\<close>

lemma meets_told:
  "blank c \<Longrightarrow> db_inv s \<Longrightarrow> msg \<noteq> [] \<Longrightarrow> meets c s ((r, msg), spec_of s) (Some (answer (Some c) r msg s))"
  "blank c \<Longrightarrow> db_inv s \<Longrightarrow> msg \<noteq> [] \<Longrightarrow> meets c s ((r, msg), spec_of s) (Some (answer (Some c) r msg (send_info_to_user d s)))"
  by (auto intro!: meets_answer)

lemma meets_nothing:
  "blank c \<Longrightarrow> db_inv s \<Longrightarrow> meets c s ((DB_ERR_OK, []), spec_of s) (Some (r, Some c, s))"
  "blank c \<Longrightarrow> db_inv s \<Longrightarrow> meets c s ((DB_ERR_OK, []), spec_of s) (Some (r, Some c, send_info_to_user d s))"
  by (cases c; simp add: meets_def blank_def)+

lemma set_meets:
  assumes "db_inv s" "mem_ok s" "blank c" "\<forall>a\<in>set args. length a < MAX_RESP_LEN"
  shows "meets c s (case args of [k, v] \<Rightarrow> sp_set k v (spec_of s) | _ \<Rightarrow> ((DB_ERR_INVALID_ARGS, RED @ ''ERR'' @ RESET), spec_of s))
    (set_key_val_helper (length (w # args)) (w # args) (Some c) s)"
proof (cases "\<exists>k v. args = [k, v]")
  case True
  then obtain k v where a: "args = [k, v]" by blast
  show ?thesis
    using meets_tail [OF meets_set [of s v c k]] assms a by (simp add: set_key_val_helper_def)
next
  case False
  then have "length args \<noteq> 2" by (auto simp: numeral_2_eq_2 length_Suc_conv)
  then show ?thesis using meets_told(1) [OF assms(3,1)] False
    by (simp add: set_key_val_helper_def RED_def split: list.split)
qed

lemma exists_meets:
  assumes "db_inv s" "blank c"
  shows "meets c s (case args of [k] \<Rightarrow> sp_exists (spec_clock s) k (spec_of s)
      | _ \<Rightarrow> ((DB_ERR_INVALID_ARGS, RED @ ''Incorrect number of args passed, run HELP EXISTS'' @ RESET), spec_of s))
    (exists_helper (length (w # args)) (w # args) (Some c) s)"
proof (cases "\<exists>k. args = [k]")
  case True
  then show ?thesis
    using meets_tail [OF meets_exists [OF assms]] by (auto simp: exists_helper_def)
next
  case False
  then have "length args \<noteq> 1" by (auto simp: length_Suc_conv)
  then show ?thesis using meets_told(2) [OF assms(2,1)] False
    by (simp add: exists_helper_def RED_def Let_def split: list.split)
qed

lemma get_meets:
  assumes "db_inv s" "blank c"
  shows "meets c s (case args of [] \<Rightarrow> ((DB_ERR_INVALID_ARGS, RED @ ''Incorrect number of args passed, run HELP GET'' @ RESET), spec_of s)
        | [k] \<Rightarrow> sp_get (spec_clock s) k (spec_of s)
        | [k, x] \<Rightarrow> if strcaseeq x ''ex'' then sp_ttl (spec_clock s) k (spec_of s) else ((DB_ERR_OK, []), spec_of s)
        | _ \<Rightarrow> ((DB_ERR_OK, []), spec_of s))
    (get_val_from_key_helper (length (w # args)) (w # args) (Some c) s)"
proof -
  consider "args = []" | k where "args = [k]" | k x where "args = [k, x]" | k x y z where "args = k # x # y # z"
    by (cases args rule: remdups_adj.cases) (auto elim: list.exhaust)
  then show ?thesis
  proof cases
    case 1
    then show ?thesis using meets_told(1) [OF assms(2,1)] by (simp add: get_val_from_key_helper_def RED_def)
  next
    case 2
    then show ?thesis
      using meets_tail [OF meets_get [OF assms]] by (simp add: get_val_from_key_helper_def)
  next
    case 3
    then show ?thesis
      using meets_tail [OF meets_ttl [OF assms]] meets_nothing(1) [OF assms(2,1)]
      by (simp add: get_val_from_key_helper_def)
  next
    case 4
    then show ?thesis
      using meets_nothing(1) [OF assms(2,1)] by (simp add: get_val_from_key_helper_def)
  qed
qed

lemma delete_meets:
  assumes "db_inv s" "blank c"
  shows "meets c s (case args of [k] \<Rightarrow> sp_delete k (spec_of s) | _ \<Rightarrow> ((DB_ERR_INVALID_ARGS, ''ERR''), spec_of s))
    (delete_key_value_helper (length (w # args)) (w # args) (Some c) s)"
proof (cases "\<exists>k. args = [k]")
  case True
  then show ?thesis
    using meets_tail [OF meets_delete [OF assms]] by (auto simp: delete_key_value_helper_def)
next
  case False
  then have "length args \<noteq> 1" by (auto simp: length_Suc_conv)
  then show ?thesis using meets_told(2) [OF assms(2,1)] False
    by (simp add: delete_key_value_helper_def split: list.split)
qed

lemma expire_found:
  assumes inv: "db_inv s" and ok: "mem_ok s" and c: "blank c"
    and t: "LONG_MIN \<le> spec_clock s (ticks (sys s) + 2) + atol x" "spec_clock s (ticks (sys s) + 2) + atol x < LONG_MAX"
  shows "meets c s (sp_expire (spec_clock s) k (atol x) (spec_of s)) (expire_key_val 3 [w, k, x] (Some c) s)"
proof -
  let ?s = "s\<lparr>SILENT := True\<rparr>"
  have inv': "db_inv ?s" using inv by simp
  obtain s1 where s1: "after_access k ?s s1" "hash_exists k (Some c) ?s = Some
    (if live_at (time_now ?s) (abs_kv ?s k) then answer (Some c) DB_ERR_OK (BOLD @ GREEN @ ''TRUE'' @ RESET) s1
     else answer (Some c) DB_ERR_KEY_NOTEXIST (BOLD @ RED @ ''FALSE'' @ RESET) s1)"
    using hash_exists_ok [OF inv'] by blast
  let ?s2 = "s1\<lparr>SILENT := False\<rparr>"
  have eq: "time_now ?s = time_now s" "spec_clock ?s = spec_clock s" "abs_kv ?s = abs_kv s" "spec_of ?s = spec_of s"
    by (simp_all add: time_now_def spec_clock_def)
  note v = after_access_visit [OF s1(1), unfolded eq]
  have env1: "same_env s ?s2" using v(2) by (simp add: same_env_def spec_clock_def mem_ok_def)
  have inv2: "db_inv ?s2" using v(3) by simp
  show ?thesis
  proof (cases "live_at (time_now s) (abs_kv s k)")
    case False
    have b: "BOLD @ RED @ ''FALSE'' @ RESET \<noteq> []" by simp
    have "expire_key_val 3 [w, k, x] (Some c) s = Some (DB_ERR_OK, Some (c\<lparr>ctx_resp := BOLD @ RED @ ''FALSE'' @ RESET,
        ctx_status := DB_ERR_KEY_NOTEXIST\<rparr>), ?s2)"
      unfolding expire_key_val_def using s1(2) False answer_msg [OF b] by (simp add: eq)
    then show ?thesis using v False env1 inv2 by (simp add: meets_def sp_expire_def)
  next
    case True
    let ?c1 = "c\<lparr>ctx_resp := BOLD @ GREEN @ ''TRUE'' @ RESET, ctx_status := DB_ERR_OK\<rparr>"
    have b: "BOLD @ GREEN @ ''TRUE'' @ RESET \<noteq> []" by simp
    obtain p where "abs_kv s k = Some p" using True by (cases "abs_kv s k") auto
    then have "ticks (sys s1) = Suc (ticks (sys s))"
      using v(1) True by (simp add: sp_visit_def spec_of_def split: option.splits if_splits)
    moreover have clk: "spec_clock ?s2 = spec_clock s" using env1 by (simp add: same_env_def)
    ultimately have lim: "LONG_MIN \<le> spec_clock ?s2 (Suc (ticks (sys ?s2))) + atol x"
      "spec_clock ?s2 (Suc (ticks (sys ?s2))) + atol x < LONG_MAX" using t by simp_all
    have ok2: "mem_ok ?s2" using ok env1 by (simp add: same_env_def)
    have ex: "expire_key_val 3 [w, k, x] (Some c) s =
        hash_update_expiry k (atol x) (Some ?c1) ?s2 \<bind> (\<lambda>(r, c', s'). Some (answer c' r [] s'))"
      unfolding expire_key_val_def using s1(2) True answer_msg [OF b] by (simp add: eq)
    have m: "meets c ?s2 (let (b', m2, t2) = sp_visit (spec_clock ?s2) k (spec_of ?s2)
     in if \<not> b' then ((DB_ERR_KEY_NOTEXIST, ''NULL''), (m2, t2))
        else ((DB_ERR_OK, ''OK''), (m2(k \<mapsto> (fst (the (m2 k)), spec_clock ?s2 t2 + atol x)), Suc t2)))
      (hash_update_expiry k (atol x) (Some ?c1) ?s2)"
      by (rule meets_update_expiry [OF inv2 ok2 _ lim]) simp
    have "sp_expire (spec_clock s) k (atol x) (spec_of s) =
      (let (b', m2, t2) = sp_visit (spec_clock ?s2) k (spec_of ?s2)
     in if \<not> b' then ((DB_ERR_KEY_NOTEXIST, ''NULL''), (m2, t2))
        else ((DB_ERR_OK, ''OK''), (m2(k \<mapsto> (fst (the (m2 k)), spec_clock ?s2 t2 + atol x)), Suc t2)))"
      unfolding sp_expire_def v(1) clk using True by simp
    then show ?thesis unfolding ex using meets_env [OF env1 meets_tail [OF m]] by simp
  qed
qed

lemma expire_meets:
  assumes "db_inv s" "mem_ok s" "blank c"
    and "\<And>k x. args = [k, x] \<Longrightarrow> LONG_MIN \<le> spec_clock s (ticks (sys s) + 2) + atol x \<and> spec_clock s (ticks (sys s) + 2) + atol x < LONG_MAX"
  shows "meets c s (case args of [k, x] \<Rightarrow> sp_expire (spec_clock s) k (atol x) (spec_of s) | _ \<Rightarrow> ((DB_ERR_INVALID_ARGS, ''ERR''), spec_of s))
    (expire_key_val (length (w # args)) (w # args) (Some c) s)"
proof (cases "\<exists>k x. args = [k, x]")
  case True
  then obtain k x where a: "args = [k, x]" by blast
  show ?thesis using expire_found [OF assms(1,2,3), of x k w] assms(4) [OF a] a by (simp add: numeral_3_eq_3)
next
  case False
  then have "length args \<noteq> 2" by (auto simp: numeral_2_eq_2 length_Suc_conv)
  then show ?thesis using meets_told(2) [OF assms(3,1)] False
    by (simp add: expire_key_val_def split: list.split)
qed

section \<open>The whole request\<close>

lemma find_command_eq: "map_option cn_func (find_command w) =
   (if strcaseeq ''HELP'' w then Some help_helper
    else if strcaseeq ''SET'' w then Some set_key_val_helper
    else if strcaseeq ''EXISTS'' w then Some exists_helper
    else if strcaseeq ''GET'' w then Some get_val_from_key_helper
    else if strcaseeq ''DELETE'' w then Some delete_key_value_helper
    else if strcaseeq ''EXPIRE'' w then Some expire_key_val
    else if strcaseeq ''SAVE'' w then Some save_helper
    else if strcaseeq ''EXIT'' w then Some exit_helper
    else if strcaseeq ''SHUTDOWN'' w then Some shutdown_helper else None)"
  by (simp add: find_command_def commands_def usages_def command_funcs_def)

text \<open>
  The handler of a request: what \<open>processCommand\<close> runs on the words after its allocation.
\<close>

definition run_words :: "string list \<Rightarrow> cmd_ctx option \<Rightarrow> db \<Rightarrow> (err_t \<times> cmd_ctx option \<times> db) option" where
  "run_words ws ctx s =
     (case map_option cn_func (find_command (ws ! 0)) of
        None \<Rightarrow> Some (answer ctx DB_ERR_CMD_NOTEXIST ''ERR'' s)
      | Some f \<Rightarrow> f (length ws) ws ctx s \<bind> (\<lambda>(r, c', s'). Some (answer c' r [] s')))"

lemma processCommand_run:
  assumes "malloc_ok s = (True, s1)" "tokenize req = ws" "ws \<noteq> []"
  shows "processCommand req ctx s = run_words ws ctx s1"
  using assms by (cases "find_command (ws ! 0)") (simp_all add: processCommand_def run_words_def word_at_def)

lemma help_meets:
  assumes "db_inv s" "blank c" "args \<noteq> [] \<longrightarrow> length args = 1 \<longrightarrow> hd args \<noteq> [] \<longrightarrow> length (hd args) < 8 + slack s"
  shows "meets c s ((if args = [] then (DB_ERR_HELP, help_text usages) else (DB_ERR_OK, [])), spec_of s)
    (help_helper (length (w # args)) (w # args) (Some c) s)"
proof -
  consider "args = []" | a where "args = [a]" | "2 \<le> length args"
    by (cases args rule: remdups_adj.cases) auto
  then show ?thesis
  proof cases
    case 1
    then show ?thesis using meets_told(1) [OF assms(2,1) help_text_nonempty, of DB_ERR_HELP]
      by (simp add: help_helper_def help_cmd_def answer_msg [OF help_text_nonempty] meets_def)
  next
    case 2
    then have "a \<noteq> [] \<Longrightarrow> length a < 8 + slack s" using assms(3) by simp
    then show ?thesis
      using 2 meets_nothing [OF assms(2,1)]
      by (auto simp: help_helper_def printSubCommands_def sprintf_to_def RED_def RESET_def)
  next
    case 3
    then show ?thesis using meets_nothing(1) [OF assms(2,1)] by (cases args) (auto simp: help_helper_def)
  qed
qed

lemma run_words_meets:
  assumes inv: "db_inv s" and ok: "mem_ok s" and c: "blank c"
    and req: "request_ok (slack s) (spec_clock s) ws (ticks (sys s))" "\<forall>a\<in>set ws. length a < MAX_RESP_LEN"
  shows "meets c s (spec_request (spec_clock s) ws (spec_of s)) (run_words ws (Some c) s)"
proof -
  obtain w args where ws: "ws = w # args" using req(1) by (cases ws) (auto simp: request_ok_def)
  note h = find_command_eq [of w] and sp = spec_request_def [of "spec_clock s" "w # args" "spec_of s", simplified]
  have run: "run_words (w # args) (Some c) s = (case map_option cn_func (find_command w) of
        None \<Rightarrow> Some (answer (Some c) DB_ERR_CMD_NOTEXIST ''ERR'' s)
      | Some f \<Rightarrow> f (length (w # args)) (w # args) (Some c) s \<bind> (\<lambda>(r, c', s'). Some (answer c' r [] s')))"
    by (simp add: run_words_def ws)
  let ?cmd = "\<lambda>n. strcaseeq n w"
  consider (hlp) "?cmd ''HELP''" | (set) "\<not> ?cmd ''HELP''" "?cmd ''SET''"
    | (exists) "\<not> ?cmd ''HELP''" "\<not> ?cmd ''SET''" "?cmd ''EXISTS''"
    | (get) "\<not> ?cmd ''HELP''" "\<not> ?cmd ''SET''" "\<not> ?cmd ''EXISTS''" "?cmd ''GET''"
    | (delete) "\<not> ?cmd ''HELP''" "\<not> ?cmd ''SET''" "\<not> ?cmd ''EXISTS''" "\<not> ?cmd ''GET''" "?cmd ''DELETE''"
    | (expire) "\<not> ?cmd ''HELP''" "\<not> ?cmd ''SET''" "\<not> ?cmd ''EXISTS''" "\<not> ?cmd ''GET''" "\<not> ?cmd ''DELETE''" "?cmd ''EXPIRE''"
    | (other) "\<not> ?cmd ''HELP''" "\<not> ?cmd ''SET''" "\<not> ?cmd ''EXISTS''" "\<not> ?cmd ''GET''" "\<not> ?cmd ''DELETE''" "\<not> ?cmd ''EXPIRE''"
    by blast
  then show ?thesis
  proof cases
    case hlp
    have "args \<noteq> [] \<longrightarrow> length args = 1 \<longrightarrow> hd args \<noteq> [] \<longrightarrow> length (hd args) < 8 + slack s"
      using req(1) hlp by (cases args) (auto simp: request_ok_def ws)
    from meets_tail [OF help_meets [OF inv c this]] show ?thesis
      unfolding ws run h sp using hlp by simp
  next
    case set
    have "\<forall>a\<in>set args. length a < MAX_RESP_LEN" using req(2) ws by simp
    from meets_tail [OF set_meets [OF inv ok c this]] show ?thesis
      unfolding ws run h sp using set by simp
  next
    case exists
    from meets_tail [OF exists_meets [OF inv c]] show ?thesis
      unfolding ws run h sp using exists by simp
  next
    case get
    from meets_tail [OF get_meets [OF inv c]] show ?thesis
      unfolding ws run h sp using get by simp
  next
    case delete
    from meets_tail [OF delete_meets [OF inv c]] show ?thesis
      unfolding ws run h sp using delete by simp
  next
    case expire
    have "LONG_MIN \<le> spec_clock s (ticks (sys s) + 2) + atol x \<and> spec_clock s (ticks (sys s) + 2) + atol x < LONG_MAX"
      if "args = [k, x]" for k x
      using req(1) expire that by (simp add: request_ok_def ws numeral_3_eq_3 numeral_2_eq_2)
    from meets_tail [OF expire_meets [OF inv ok c this]] show ?thesis
      unfolding ws run h sp using expire by simp
  next
    case other
    have save: "strcaseeq ''SAVE'' w \<Longrightarrow> args \<noteq> []" using req(1) by (auto simp: request_ok_def ws)
    note told = meets_told(1) [OF c inv]
    have m: "meets c s ((DB_ERR_INVALID_ARGS, ''OK''), spec_of s) (save_helper (length (w # args)) (w # args) (Some c) s)"
      if "args \<noteq> []" using told [of "''OK''"] that by (simp add: save_helper_def)
    have e: "meets c s (if args = [] then (DB_ERR_EXIT, RED @ BOLD @ ''Bye...'' @ RESET)
         else (DB_ERR_INVALID_ARGS, RED @ ''ERR'' @ RESET), spec_of s) (exit_helper (length (w # args)) (w # args) (Some c) s)"
      using told by (simp add: exit_helper_def)
    have d: "meets c s (if args = [] then (DB_ERR_SHUTDOWN, RED @ BOLD @ ''Goodbye...'' @ RESET)
         else (DB_ERR_INVALID_ARGS, RED @ ''ERR'' @ RESET), spec_of s) (shutdown_helper (length (w # args)) (w # args) (Some c) s)"
      using told by (simp add: shutdown_helper_def)
    show ?thesis
      unfolding ws run h sp using other save meets_tail [OF m] meets_tail [OF e] meets_tail [OF d]
        told [of "''ERR''" DB_ERR_CMD_NOTEXIST]
      by (simp split del: if_split cong: if_cong) (simp add: if_split)
  qed
qed

lemma malloc_ok_env:
  assumes "db_inv s" "mem_ok s"
  obtains s1 where "malloc_ok s = (True, s1)" "db_inv s1" "same_env s s1" "spec_of s1 = spec_of s"
    "ticks (sys s1) = ticks (sys s)"
proof -
  obtain b s1 where m: "malloc_ok s = (b, s1)" by fastforce
  note k = malloc_ok_keeps [OF m]
  have "b" using k(1) assms(2) by (simp add: mem_ok_def)
  moreover have inv: "db_inv s1" "abs_kv s1 = abs_kv s"
    by (rule db_inv_ents [OF assms(1)]; use k in simp)+
  ultimately show ?thesis
    using that [of s1] m k(6) same_env_core [OF k(6)] by (simp add: spec_of_def core_only_def)
qed

lemma tokenize_short: "length req < n \<Longrightarrow> \<forall>a\<in>set (tokenize req). length a < n"
  using tokens_upto_sound [of _ MAX_CMD_PARAMS req] by (fastforce simp: tokenize_def)

lemma processCommand_meets:
  assumes "db_inv s" "mem_ok s" "blank c" "length req < MAX_RESP_LEN"
    and "request_ok (slack s) (spec_clock s) (tokenize req) (ticks (sys s))"
  shows "meets c s (spec_request (spec_clock s) (tokenize req) (spec_of s)) (processCommand req (Some c) s)"
proof -
  obtain s1 where s1: "malloc_ok s = (True, s1)" "db_inv s1" "same_env s s1" "spec_of s1 = spec_of s"
    "ticks (sys s1) = ticks (sys s)" using malloc_ok_env [OF assms(1,2)] .
  have e: "spec_clock s1 = spec_clock s" "mem_ok s1" "slack s1 = slack s"
    using s1(3) assms(2) by (simp_all add: same_env_def)
  have ws: "tokenize req \<noteq> []" using assms(5) by (simp add: request_ok_def)
  have "meets c s1 (spec_request (spec_clock s1) (tokenize req) (spec_of s1)) (run_words (tokenize req) (Some c) s1)"
    by (rule run_words_meets [OF s1(2) e(2) assms(3)])
      (use assms(5) s1(5) e tokenize_short [OF assms(4)] in auto)
  then show ?thesis
    using processCommand_run [OF s1(1) refl ws] meets_env [OF s1(3)] e s1(4) by simp
qed

section \<open>The server's view\<close>

text \<open>What a request of a connection is told: the code and the text of its context.\<close>

definition new_ctx :: "conn_t \<Rightarrow> cmd_ctx" where
  "new_ctx conn = \<lparr>ctx_conn = conn, ctx_resp = [], ctx_status = DB_ERR_OK\<rparr>"

definition served :: "conn_t \<Rightarrow> string \<Rightarrow> db \<Rightarrow> ((err_t \<times> string) \<times> db) option" where
  "served conn req s = do {
     (r, ctx, s1) \<leftarrow> processCommand req (Some (new_ctx conn)) s;
     x \<leftarrow> ctx;
     Some ((ctx_status x, ctx_resp x), s1) }"

text \<open>The way of the answer back, by \<open>handle_request\<close>.\<close>

definition deliver :: "conn_t \<Rightarrow> string \<Rightarrow> db \<Rightarrow> db" where
  "deliver conn text s =
     (if c_fd conn = -1 then send_info_to_user text s
      else snd (socket_send_data (c_fd conn) (text @ [LF] @ USER_PROMPT) s))"

definition server_env :: "db \<Rightarrow> (nat \<Rightarrow> int) \<times> bool \<times> nat" where
  "server_env s = (spec_clock s, mem_ok s, slack s)"

definition server_ok :: "(nat \<Rightarrow> int) \<times> bool \<times> nat \<Rightarrow> string \<Rightarrow> spec_state \<Rightarrow> bool" where
  "server_ok e req st \<longleftrightarrow> (case e of (clk, mo, sl) \<Rightarrow>
     mo \<and> length req < MAX_RESP_LEN \<and> request_ok sl clk (tokenize req) (snd st))"

definition server_spec :: "(nat \<Rightarrow> int) \<times> bool \<times> nat \<Rightarrow> string \<Rightarrow> spec_state \<Rightarrow> (err_t \<times> string) \<times> spec_state" where
  "server_spec e req st = spec_request (fst e) (tokenize req) st"

lemma blank_new_ctx [simp]: "blank (new_ctx conn)"
  by (simp add: blank_def new_ctx_def)

lemma served_step:
  assumes "db_inv s" "server_ok (server_env s) req (spec_of s)"
  shows "\<exists>s'. served conn req s = Some (fst (server_spec (server_env s) req (spec_of s)), s') \<and> db_inv s' \<and>
    server_env s' = server_env s \<and> spec_of s' = snd (server_spec (server_env s) req (spec_of s))"
proof -
  have ok: "mem_ok s" "length req < MAX_RESP_LEN" "request_ok (slack s) (spec_clock s) (tokenize req) (ticks (sys s))"
    using assms(2) by (auto simp: server_ok_def server_env_def spec_of_def)
  show ?thesis
    using processCommand_meets [OF assms(1) ok(1) blank_new_ctx [of conn] ok(2,3)]
    by (auto simp: meets_def served_def server_spec_def server_env_def same_env_def)
qed

interpretation server: simulation "served conn" db_inv server_env spec_of server_ok server_spec for conn
  by unfold_locales (rule served_step)

lemma handle_request_served:
  assumes inv: "db_inv s" and ok: "server_ok (server_env s) req (spec_of s)"
  shows "\<exists>s1. served conn req (snd (malloc_ok (snd (malloc_ok s)))) =
      Some (fst (server_spec (server_env s) req (spec_of s)), s1) \<and>
    handle_request (Some conn) req s =
      Some (fst (fst (server_spec (server_env s) req (spec_of s))),
            deliver conn (snd (fst (server_spec (server_env s) req (spec_of s)))) s1) \<and>
    db_inv s1 \<and> server_env s1 = server_env s \<and> spec_of s1 = snd (server_spec (server_env s) req (spec_of s))"
proof -
  have mo: "mem_ok s" using ok by (simp add: server_ok_def server_env_def)
  obtain s1 where s1: "malloc_ok s = (True, s1)" "db_inv s1" "same_env s s1" "spec_of s1 = spec_of s"
    using malloc_ok_env [OF inv mo] .
  have mo1: "mem_ok s1" using mo s1(3) by (simp add: same_env_def)
  obtain s2 where s2: "malloc_ok s1 = (True, s2)" "db_inv s2" "same_env s1 s2" "spec_of s2 = spec_of s1"
    using malloc_ok_env [OF s1(2) mo1] .
  have e: "server_env s2 = server_env s" "spec_of s2 = spec_of s"
    using s1(3,4) s2(3,4) by (auto simp: server_env_def same_env_def)
  have ok2: "mem_ok s2" "length req < MAX_RESP_LEN" "request_ok (slack s2) (spec_clock s2) (tokenize req) (ticks (sys s2))"
    using ok [folded e] by (auto simp: server_ok_def server_env_def spec_of_def)
  from processCommand_meets [OF s2(2) ok2(1) blank_new_ctx [of conn] ok2(2,3)] obtain r s3 where
    p: "processCommand req (Some (new_ctx conn)) s2 = Some (r, Some (new_ctx conn
        \<lparr>ctx_resp := snd (fst (server_spec (server_env s) req (spec_of s))),
         ctx_status := fst (fst (server_spec (server_env s) req (spec_of s)))\<rparr>), s3)"
      "db_inv s3" "same_env s2 s3" "spec_of s3 = snd (server_spec (server_env s) req (spec_of s))"
    using e by (auto simp: meets_def server_spec_def server_env_def)
  have "served conn req s2 = Some (fst (server_spec (server_env s) req (spec_of s)), s3)"
    using p(1) by (simp add: served_def)
  moreover have "handle_request (Some conn) req s =
      Some (fst (fst (server_spec (server_env s) req (spec_of s))),
            deliver conn (snd (fst (server_spec (server_env s) req (spec_of s)))) s3)"
    using s1(1) s2(1) p(1) by (simp add: handle_request_def new_ctx_def deliver_def case_prod_unfold)
  moreover have "server_env s3 = server_env s"
    using p(3) e(1) by (simp add: server_env_def same_env_def)
  ultimately show ?thesis using s1(1) s2(1) p(2,4) by auto
qed

section \<open>Request lines\<close>

text \<open>The line a client writes for a list of words.\<close>

fun line_of :: "string list \<Rightarrow> string" where
  "line_of [] = []"
| "line_of [w] = w"
| "line_of (w # ws) = w @ '' '' @ line_of ws"

definition plain_word :: "string \<Rightarrow> bool" where
  "plain_word w \<longleftrightarrow> w \<noteq> [] \<and> (\<forall>c\<in>set w. \<not> is_blank c)"

lemma tokens_upto_Nil [simp]: "tokens_upto n [] = []"
  by (cases n) simp_all

lemma tokens_upto_line:
  assumes "\<forall>w\<in>set ws. plain_word w" "length ws \<le> n"
  shows "tokens_upto n (line_of ws) = ws"
  using assms
proof (induction ws arbitrary: n rule: line_of.induct)
  case (2 w)
  then obtain k where "n = Suc k" by (cases n) auto
  then show ?case using 2 strtok_r_last [of w is_blank] by (cases k) (auto simp: plain_word_def)
next
  case (3 w v vs)
  then obtain k where k: "n = Suc k" by (cases n) auto
  have "strtok_r is_blank (w @ CHR '' '' # line_of (v # vs)) = Some (w, line_of (v # vs))"
    using 3 by (intro strtok_r_token) (auto simp: plain_word_def is_blank_def)
  then show ?case using 3 k by simp
qed simp

lemma tokenize_line: "\<forall>w\<in>set ws. plain_word w \<Longrightarrow> length ws \<le> MAX_CMD_PARAMS \<Longrightarrow> tokenize (line_of ws) = ws"
  by (simp add: tokenize_def tokens_upto_line)

end
