(* ===== verification/Server_Proof.thy ===== *)
theory Server_Proof
  imports Network_Proof Request_Proof
begin

text \<open>
  Runs of the server: a round as a step, the states it reaches, when the loop returns, and
  the way of one request from the socket to the database and back.
\<close>

section \<open>A pass over the connections\<close>

text \<open>The table keeps its length, and every connection goes on in its life.\<close>

definition table_step :: "db \<Rightarrow> db \<Rightarrow> bool" where
  "table_step s s' \<longleftrightarrow> table_inv s' \<and> conn_len s \<le> conn_len s' \<and>
     (\<forall>i c. i < conn_len s \<longrightarrow> CONN i s = Some c \<longrightarrow> (\<exists>c'. CONN i s' = Some c' \<and> conn_life\<^sup>*\<^sup>* c c'))"

lemma table_step_refl: "table_inv s \<Longrightarrow> table_step s s"
  by (auto simp: table_step_def)

lemma table_step_trans:
  assumes "table_step s s'" "table_step s' s''"
  shows "table_step s s''"
proof -
  have "\<exists>c''. CONN i s'' = Some c'' \<and> conn_life\<^sup>*\<^sup>* c c''" if i: "i < conn_len s" "CONN i s = Some c" for i c
  proof -
    obtain c' where c': "CONN i s' = Some c'" "conn_life\<^sup>*\<^sup>* c c'" "i < conn_len s'"
      using assms(1) i unfolding table_step_def by fastforce
    then obtain c'' where "CONN i s'' = Some c''" "conn_life\<^sup>*\<^sup>* c' c''"
      using assms(2) unfolding table_step_def by blast
    then show ?thesis using c'(2) rtranclp_trans by metis
  qed
  then show ?thesis using assms unfolding table_step_def by auto
qed

lemma slot_table_step:
  assumes "slot_step i s s'"
  shows "table_step s s'" "conn_len s' = conn_len s"
proof -
  have "\<exists>c'. CONN j s' = Some c' \<and> conn_life\<^sup>*\<^sup>* c c'" if "CONN j s = Some c" for j c
    using assms that unfolding slot_step_def by (cases "j = i") auto
  then show "table_step s s'" "conn_len s' = conn_len s" using assms by (auto simp: table_step_def slot_step_def)
qed

lemma serve_conns_step:
  assumes "serve_conns readfds is s = Some (stop, s')" "table_inv s" "\<forall>i\<in>set is. i < conn_len s"
  shows "table_step s s' \<and> conn_len s' = conn_len s"
  using assms
proof (induction "is" arbitrary: s)
  case (Cons i "is")
  then obtain b s1 where s1: "serve_conn readfds i s = Some (b, s1)"
    "(if b then Some (True, s1) else serve_conns readfds is s1) = Some (stop, s')"
    by (auto simp: bind_Some_iff)
  have sl: "slot_step i s s1" by (rule serve_conn_step [OF s1(1)]) (use Cons.prems in auto)
  note st = slot_table_step [OF sl]
  show ?case
  proof (cases b)
    case True
    then show ?thesis using s1(2) st by simp
  next
    case False
    then have run: "serve_conns readfds is s1 = Some (stop, s')" using s1(2) by simp
    have "table_inv s1" using sl by (simp add: slot_step_def)
    from Cons.IH [OF run this] have "table_step s1 s' \<and> conn_len s' = conn_len s1" using Cons.prems(3) st(2) by auto
    then show ?thesis using table_step_trans [OF st(1)] st(2) by auto
  qed
qed (simp add: table_step_refl)

section \<open>New connections\<close>

lemma call_next_table [simp]: "conn_table (snd (call_next s)) = conn_table s" "conn_table (snd (select_next s)) = conn_table s"
  by (simp_all add: call_next_def select_next_def)

lemma accept_conn_ok:
  assumes "table_inv s" "conn_len s < DEF_CONN_TABLE_SIZE"
  shows "\<exists>s'. accept_conn s = Some s' \<and> table_inv s' \<and> conn_len s' = Suc (conn_len s) \<and>
    CONN (conn_len s) s' = Some \<lparr>c_fd = fst (call_next s), c_type = CONN_UNKN, c_state = STATE_HANDSHAKE\<rparr> \<and>
    (\<forall>i. i \<noteq> conn_len s \<longrightarrow> CONN i s' = CONN i s)"
proof -
  let ?new = "\<lparr>c_fd = fst (call_next s), c_type = CONN_UNKN, c_state = STATE_HANDSHAKE\<rparr>"
  obtain t where t: "conn_table s = Some t" "table_fine t" using assms(1) by (auto simp: table_inv_def)
  define n where "n = nat (ct_len t)"
  have len: "conn_len s = n" "ct_len t = int n" "n < length (conns t)"
    using t assms(2) by (auto simp: conn_len_def n_def table_fine_def)
  let ?t' = "t\<lparr>conns := (conns t)[n := Some ?new], ct_len := ct_len t + 1\<rparr>"
  let ?s1 = "snd (call_next s)"
  have t1: "conn_table ?s1 = Some t" using t(1) by simp
  have run: "accept_conn s = Some (set_table ?t' (set_table (t\<lparr>conns := (conns t)[n := Some ?new]\<rparr>) ?s1))"
    using t1 len by (simp add: accept_conn_def case_prod_unfold NUM_CONNS_def set_CONN_def Let_def)
  have fine: "table_fine ?t'"
    using t(2) len assms(2) by (auto simp: table_fine_def nth_list_update conn_fine_def less_Suc_eq nat_add_distrib)
  show ?thesis
    unfolding run using fine t len
    by (auto simp: table_inv_def conn_len_def nat_add_distrib CONN_def nth_list_update bind_Some_iff)
qed

text \<open>The table has no room for a connection beyond its capacity: the write is out of bounds.\<close>

lemma accept_conn_full:
  assumes "table_inv s" "conn_len s = DEF_CONN_TABLE_SIZE"
  shows "accept_conn s = None"
proof -
  obtain t where t: "conn_table s = Some t" "table_fine t" using assms(1) by (auto simp: table_inv_def)
  then have len: "nat (ct_len t) = length (conns t)" using assms(2) by (auto simp: conn_len_def table_fine_def)
  have t1: "conn_table (snd (call_next s)) = Some t" using t(1) by simp
  show ?thesis
    using t1 len by (simp add: accept_conn_def case_prod_unfold NUM_CONNS_def set_CONN_def)
qed

lemma accept_conn_step:
  assumes "accept_conn s = Some s'" "table_inv s"
  shows "table_step s s'" "conn_len s' = Suc (conn_len s)"
proof -
  have "conn_len s \<le> DEF_CONN_TABLE_SIZE" using assms(2) by (auto simp: table_inv_def table_fine_def conn_len_def)
  then have lt: "conn_len s < DEF_CONN_TABLE_SIZE" using accept_conn_full [OF assms(2)] assms(1) by (cases "conn_len s = DEF_CONN_TABLE_SIZE") auto
  show "table_step s s'" "conn_len s' = Suc (conn_len s)"
    using accept_conn_ok [OF assms(2) lt] assms(1) by (auto simp: table_step_def)
qed

section \<open>A round\<close>

lemma conn_len_num: "table_inv s \<Longrightarrow> NUM_CONNS s = Some (int (conn_len s))"
  by (auto simp: table_inv_def table_fine_def NUM_CONNS_def conn_len_def)

lemma server_round_step:
  assumes "server_round fd s = Some (stop, s')" "table_inv s"
  shows "table_step s s' \<and> conn_len s' \<le> Suc (conn_len s)"
proof -
  obtain fds where w: "watch_conns [0..<conn_len s] s = Some fds" and fd: "fd_ok fd"
    using assms(1) conn_len_num [OF assms(2)] unfolding server_round_def
    by (cases "watch_conns [0..<conn_len s] s") (auto split: if_splits)
  obtain r ready s1 where sel: "select_next s = ((r, ready), s1)" by (metis prod.collapse)
  have t1: "conn_table s1 = conn_table s" using call_next_table(2) [of s] sel by simp
  have inv1: "table_inv s1" and len1: "conn_len s1 = conn_len s" using table_cong [OF t1] assms(2) by auto
  have st1: "table_step s s1" using table_cong [OF t1] assms(2) by (auto simp: table_step_def)
  show ?thesis
  proof (cases "r < 0")
    case True
    then have "s' = send_info_to_user ''SELECT syscall got interrupted'' s1"
      using assms(1) conn_len_num [OF assms(2)] w fd sel by (simp add: server_round_def)
    then have "conn_table s' = conn_table s" using t1 by simp
    from table_cong [OF this] show ?thesis using assms(2) by (auto simp: table_step_def)
  next
    case False
    let ?rd = "filter (\<lambda>fd. fd \<in> set ready) (fd # fds)"
    obtain s2 m where s2: "(if fd \<in> set ?rd then accept_conn s1 else Some s1) = Some s2"
      "NUM_CONNS s2 = Some m" "serve_conns ?rd [0..<nat m] s2 = Some (stop, s')"
      using assms(1) conn_len_num [OF assms(2)] w fd sel False
      by (simp add: server_round_def Let_def bind_Some_iff split del: if_split) blast
    have a: "table_step s1 s2" "conn_len s2 \<le> Suc (conn_len s1)"
      using s2(1) accept_conn_step [of s1 s2] table_step_refl [OF inv1] inv1 by (auto split: if_splits)
    have inv2: "table_inv s2" using a(1) by (simp add: table_step_def)
    have "m = int (conn_len s2)" using s2(2) conn_len_num [OF inv2] by simp
    then have b: "table_step s2 s' \<and> conn_len s' = conn_len s2"
      by (intro serve_conns_step [OF s2(3) inv2]) auto
    show ?thesis using table_step_trans [OF table_step_trans [OF st1 a(1)]] b a(2) len1 by auto
  qed
qed

section \<open>The states of the loop\<close>

inductive server_reach :: "int \<Rightarrow> db \<Rightarrow> db \<Rightarrow> bool" for fd s0 where
  entry: "server_reach fd s0 s0"
| round: "server_reach fd s0 s \<Longrightarrow> server_round fd s = Some (False, s') \<Longrightarrow> server_reach fd s0 s'"

lemma server_reach_step:
  assumes "server_reach fd s0 s" "table_inv s0"
  shows "table_step s0 s"
  using assms(1)
proof (induction rule: server_reach.induct)
  case entry
  show ?case using table_step_refl [OF assms(2)] .
next
  case (round s s')
  then have "table_inv s" by (simp add: table_step_def)
  with round show ?case using server_round_step table_step_trans by blast
qed

lemma server_reach_first:
  assumes "server_round fd s0 = Some (False, s1)" "server_reach fd s1 s"
  shows "server_reach fd s0 s"
  using assms(2)
proof (induction rule: server_reach.induct)
  case entry
  show ?case using server_reach.round [OF server_reach.entry assms(1)] .
next
  case (round s s')
  then show ?case by (blast intro: server_reach.round)
qed

lemma server_loop_back:
  assumes "server_reach fd s0 s"
  shows "server_loop fd s0 = server_loop fd s"
  using assms
proof (induction rule: server_reach.induct)
  case (round s s')
  then show ?case by (subst (asm) (2) server_loop.simps) simp
qed simp

text \<open>The loop returns exactly when a reachable state has a round that stops.\<close>

lemma server_loop_iff:
  "server_loop fd s0 = Some s' \<longleftrightarrow> (\<exists>s. server_reach fd s0 s \<and> server_round fd s = Some (True, s'))"
proof
  assume run: "server_loop fd s0 = Some s'"
  show "\<exists>s. server_reach fd s0 s \<and> server_round fd s = Some (True, s')"
  proof (rule server_loop.raw_induct
      [where P = "\<lambda>fd s0 s'. \<exists>s. server_reach fd s0 s \<and> server_round fd s = Some (True, s')", OF _ run])
    fix f fd s0 s'
    assume IH: "\<And>fd s0 s'. f fd s0 = Some s' \<Longrightarrow> \<exists>s. server_reach fd s0 s \<and> server_round fd s = Some (True, s')"
      and eq: "server_round fd s0 \<bind> (\<lambda>(stop, s1). if stop then Some s1 else f fd s1) = Some s'"
    obtain stop s1 where r: "server_round fd s0 = Some (stop, s1)" "(if stop then Some s1 else f fd s1) = Some s'"
      using eq by (auto simp: bind_Some_iff)
    show "\<exists>s. server_reach fd s0 s \<and> server_round fd s = Some (True, s')"
    proof (cases stop)
      case True
      then show ?thesis using r server_reach.entry by auto
    next
      case False
      then have "f fd s1 = Some s'" using r by simp
      then obtain t where t: "server_reach fd s1 t" "server_round fd t = Some (True, s')" using IH by blast
      from r(1) False have "server_round fd s0 = Some (False, s1)" by simp
      from server_reach_first [OF this t(1)] t(2) show ?thesis by blast
    qed
  qed
next
  assume "\<exists>s. server_reach fd s0 s \<and> server_round fd s = Some (True, s')"
  then obtain s where s: "server_reach fd s0 s" "server_round fd s = Some (True, s')" by blast
  show "server_loop fd s0 = Some s'"
    unfolding server_loop_back [OF s(1)] by (subst server_loop.simps) (simp add: s(2))
qed

text \<open>A closed connection stays closed, and a connection never falls back to its greeting.\<close>

lemma life_closed: "conn_life\<^sup>*\<^sup>* c c' \<Longrightarrow> c_fd c = -1 \<Longrightarrow> c' = c"
  by (induction rule: rtranclp_induct) (auto elim: conn_lifeE)

lemma life_active: "conn_life\<^sup>*\<^sup>* c c' \<Longrightarrow> c_state c = STATE_ACTIVE \<Longrightarrow> c_state c' = STATE_ACTIVE \<and> c_type c' = c_type c"
  by (induction rule: rtranclp_induct) (auto elim: conn_lifeE)

lemma life_fd: "conn_life\<^sup>*\<^sup>* c c' \<Longrightarrow> c_fd c' = c_fd c \<or> c_fd c' = -1"
  by (induction rule: rtranclp_induct) (auto elim: conn_lifeE)

section \<open>One request, from the socket to the database and back\<close>

text \<open>Steps that leave the database and what its requests depend on alone.\<close>

definition data_same :: "db \<Rightarrow> db \<Rightarrow> bool" where
  "data_same s s' \<longleftrightarrow> mem s' = mem s \<and> ht s' = ht s \<and> ttl s' = ttl s \<and> slack s' = slack s \<and>
     clock (sys s') = clock (sys s) \<and> ticks (sys s') = ticks (sys s)"

lemma data_sameD:
  assumes "data_same s s'"
  shows "db_inv s' = db_inv s" "spec_of s' = spec_of s" "server_env s' = server_env s"
  using assms db_inv_cong [of s' s] abs_kv_cong [of s' s]
  by (simp_all add: data_same_def spec_of_def server_env_def spec_clock_def mem_ok_def)

lemma deliver_same: "data_same s (deliver conn text s)"
  by (auto simp: data_same_def deliver_def socket_send_data_def send_next_def case_prod_unfold Let_def)

lemma deliver_fixed [simp]: "fixed (deliver conn text s) = fixed s"
  by (simp add: deliver_def)

lemma deliver_table [simp]: "conn_table (deliver conn text s) = conn_table s"
  using deliver_fixed [where s = s] conn_table_hc unfolding fixed_eq by blast

lemma set_CONN_same: "set_CONN i c s = Some s' \<Longrightarrow> data_same s s'"
  by (auto simp: set_CONN_def data_same_def set_table_def upd_config_def bind_Some_iff split: if_splits)

lemma close_conn_same: "close_conn i s = Some s' \<Longrightarrow> data_same s s'"
  unfolding close_conn_def bind_Some_iff
  by (auto dest!: set_CONN_same simp: data_same_def emit_def)

lemma served_quiet: "served conn req s = Some (r, s') \<Longrightarrow> quiet s' = quiet s"
  by (auto simp: served_def bind_Some_iff dest!: processCommand_hc)

text \<open>The answer to an admissible line, and the state of the database after it.\<close>

abbreviation (input) reply :: "db \<Rightarrow> string \<Rightarrow> err_t \<times> string" where
  "reply s line \<equiv> fst (server_spec (server_env s) line (spec_of s))"

abbreviation (input) next_spec :: "db \<Rightarrow> string \<Rightarrow> spec_state" where
  "next_spec s line \<equiv> snd (server_spec (server_env s) line (spec_of s))"

lemma conn_active_answers:
  assumes "CONN i s = Some c" "c_type c = CONN_USER" "0 < c_fd c" "line \<noteq> []" "db_inv s"
    and "server_ok (server_env s) line (spec_of s)"
  shows "\<exists>s1. conn_active i line s =
      (if fst (reply s line) = DB_ERR_EXIT then map_option (Pair False) (close_conn i (deliver c (snd (reply s line)) s1))
       else Some (fst (reply s line) = DB_ERR_SHUTDOWN, deliver c (snd (reply s line)) s1)) \<and>
    db_inv s1 \<and> spec_of s1 = next_spec s line \<and> server_env s1 = server_env s \<and> quiet s1 = quiet s"
proof -
  obtain s1 where s1: "handle_request (Some c) line s = Some (fst (reply s line), deliver c (snd (reply s line)) s1)"
    "db_inv s1" "server_env s1 = server_env s" "spec_of s1 = next_spec s line"
    "served c line (snd (malloc_ok (snd (malloc_ok s)))) = Some (fst (server_spec (server_env s) line (spec_of s)), s1)"
    using handle_request_served [OF assms(5,6), of c] by blast
  have "quiet s1 = quiet s" using served_quiet [OF s1(5)] malloc_hc by (metis prod.collapse)
  moreover have "conn_active i line s =
      (if fst (reply s line) = DB_ERR_EXIT then map_option (Pair False) (close_conn i (deliver c (snd (reply s line)) s1))
       else Some (fst (reply s line) = DB_ERR_SHUTDOWN, deliver c (snd (reply s line)) s1))"
    using assms(1-4) s1(1) by (simp add: conn_active_def map_conv_bind_option comp_def)
  ultimately show ?thesis using s1(2-4) by blast
qed

text \<open>One line is read, nothing is sent, and the configuration with its table stays.\<close>

definition one_read :: "db \<Rightarrow> db \<Rightarrow> bool" where
  "one_read s s' \<longleftrightarrow> fixed s' = fixed s \<and> n_recv (sys s') = Suc (n_recv (sys s)) \<and> sents s' = sents s"

lemma one_readD:
  assumes "one_read s s'"
  shows "conn_table s' = conn_table s" "recv_res (sys s') = recv_res (sys s)" "CONN j s' = CONN j s"
  using assms conn_table_hc [of s' s] table_cong(3) [of s' s] by (simp_all add: one_read_def fixed_eq)

text \<open>What is read from a connection that is ready.\<close>

lemma serve_conn_reads:
  assumes "CONN i s = Some c" "c_fd c \<in> set readfds" "fd_ok (c_fd c)" "mem_ok s"
    and "recv_res (sys s) (n_recv (sys s)) = Received t" "t \<noteq> []" "db_inv s"
  shows "\<exists>s2. serve_conn readfds i s = (if c_state c = STATE_HANDSHAKE
      then map_option (Pair False) (conn_handshake i (first_line (take (MAX_CMD_LEN - 1) t)) s2)
      else conn_active i (first_line (take (MAX_CMD_LEN - 1) t)) s2) \<and>
    db_inv s2 \<and> spec_of s2 = spec_of s \<and> server_env s2 = server_env s \<and> one_read s s2"
proof -
  obtain s1 where s1: "malloc_ok s = (True, s1)" "db_inv s1" "same_env s s1" "spec_of s1 = spec_of s"
    using malloc_ok_env [OF assms(7,4)] .
  have sys: "sys s1 = sys s" using s1(1) by (auto simp: malloc_ok_def alloc_def)
  define s2 where "s2 = snd (recv_next s1)"
  have r: "socket_read_data (c_fd c) [] (MAX_CMD_LEN - 1) s1 = Some (DB_ERR_OK, first_line (take (MAX_CMD_LEN - 1) t), s2)"
    using assms(5,6) sys by (subst socket_read_data.simps) (simp add: recv_next_def s2_def)
  have d: "data_same s1 s2" by (simp add: data_same_def s2_def recv_next_def)
  have "server_env s1 = server_env s" using s1(3) by (simp add: same_env_def server_env_def)
  moreover have "one_read s s2"
    using malloc_hc [OF s1(1)] by (simp add: quiet_def one_read_def s2_def recv_next_def sents_def)
  moreover have "c_fd c \<noteq> -1" using assms(3) by (auto simp: fd_ok_def)
  ultimately show ?thesis
    using assms(1-3) s1 r data_sameD [OF d]
    by (intro exI [of _ s2]) (auto simp: serve_conn_def map_conv_bind_option comp_def)
qed

lemma serve_conn_answers:
  assumes "CONN i s = Some c" "c_type c = CONN_USER" "c_state c = STATE_ACTIVE" "c_fd c \<in> set readfds"
    and "0 < c_fd c" "c_fd c < FD_SETSIZE" "db_inv s"
    and "recv_res (sys s) (n_recv (sys s)) = Received t" "line = first_line (take (MAX_CMD_LEN - 1) t)" "line \<noteq> []"
    and "server_ok (server_env s) line (spec_of s)"
  shows "\<exists>s1. serve_conn readfds i s =
      (if fst (reply s line) = DB_ERR_EXIT then map_option (Pair False) (close_conn i (deliver c (snd (reply s line)) s1))
       else Some (fst (reply s line) = DB_ERR_SHUTDOWN, deliver c (snd (reply s line)) s1)) \<and>
    db_inv s1 \<and> spec_of s1 = next_spec s line \<and> server_env s1 = server_env s \<and> one_read s s1"
proof -
  have mo: "mem_ok s" using assms(11) by (simp add: server_ok_def server_env_def)
  have "t \<noteq> []" using assms(9,10) by (auto simp: first_line_def)
  moreover have "fd_ok (c_fd c)" using assms(5,6) by (simp add: fd_ok_def)
  ultimately obtain s2 where s2: "serve_conn readfds i s = conn_active i line s2" "db_inv s2"
    "spec_of s2 = spec_of s" "server_env s2 = server_env s" "one_read s s2"
    using serve_conn_reads [OF assms(1,4) _ mo assms(8) _ assms(7)] assms(3,9) by auto
  have "CONN i s2 = Some c" using one_readD(3) [OF s2(5)] assms(1) by simp
  from conn_active_answers [OF this assms(2,5,10) s2(2)] assms(11) s2 show ?thesis by (auto simp: one_read_def quiet_eq)
qed

text \<open>The greeting of the client makes the connection an active user, who gets the prompt.\<close>

lemma conn_handshake_user:
  assumes "CONN i s = Some c"
  shows "\<exists>s1. set_CONN i (c\<lparr>c_type := CONN_USER, c_state := STATE_ACTIVE\<rparr>) s = Some s1 \<and>
    conn_handshake i USER_JOIN s = Some (snd (send_next (c_fd c) USER_PROMPT s1))"
proof -
  obtain t where "conn_table s = Some t" "i < length (conns t)"
    using assms by (auto simp: CONN_def bind_Some_iff split: if_splits)
  then show ?thesis using assms by (auto simp: conn_handshake_def set_CONN_def case_prod_unfold)
qed

end
