(* ===== verification/Pass_Proof.thy ===== *)
theory Pass_Proof
  imports Server_Proof
begin

text \<open>
  A pass of the server over its connections, with several clients at once: the requests that are
  ready are answered one after the other, each in the state the one before it left, and each
  client gets the answer to its own request.
\<close>

section \<open>The specification of a pass\<close>

text \<open>The bytes that go back to a client.\<close>

definition answer_sent :: "conn_t \<Rightarrow> string \<Rightarrow> io_event" where
  "answer_sent c msg = Sent (c_fd c) (take (MAX_RESP_LEN - 1) (msg @ [LF] @ USER_PROMPT))"

text \<open>Requests with the connections they come from; the result says whether one of them was \<open>SHUTDOWN\<close>.\<close>

fun pass_spec :: "(nat \<Rightarrow> int) \<times> bool \<times> nat \<Rightarrow> (conn_t \<times> string) list \<Rightarrow> spec_state \<Rightarrow> bool \<times> io_event list \<times> spec_state" where
  "pass_spec e [] st = (False, [], st)"
| "pass_spec e ((c, line) # qs) st =
     (let ((code, msg), st1) = server_spec e line st
      in if code = DB_ERR_SHUTDOWN then (True, [answer_sent c msg], st1)
         else let (stop, evs, st2) = pass_spec e qs st1 in (stop, answer_sent c msg # evs, st2))"

fun pass_ok :: "(nat \<Rightarrow> int) \<times> bool \<times> nat \<Rightarrow> (conn_t \<times> string) list \<Rightarrow> spec_state \<Rightarrow> bool" where
  "pass_ok e [] st = True"
| "pass_ok e ((c, line) # qs) st =
     (line \<noteq> [] \<and> server_ok e line st \<and>
      (fst (fst (server_spec e line st)) \<noteq> DB_ERR_SHUTDOWN \<longrightarrow> pass_ok e qs (snd (server_spec e line st))))"

text \<open>The lines the next reads deliver.\<close>

fun delivers :: "(nat \<Rightarrow> recv_result) \<Rightarrow> nat \<Rightarrow> string list \<Rightarrow> bool" where
  "delivers f k [] = True"
| "delivers f k (l # ls) =
     ((case f k of Received t \<Rightarrow> l = first_line (take (MAX_CMD_LEN - 1) t) | _ \<Rightarrow> False) \<and> delivers f (Suc k) ls)"

text \<open>Connections that are asleep are passed over; the ready ones are active users.\<close>

definition ready :: "int list \<Rightarrow> conn_t \<Rightarrow> bool" where
  "ready readfds c \<longleftrightarrow> c_fd c \<noteq> -1 \<and> c_fd c \<in> set readfds"

definition servable :: "int list \<Rightarrow> conn_t \<Rightarrow> bool" where
  "servable readfds c \<longleftrightarrow> (c_fd c \<noteq> -1 \<longrightarrow> fd_ok (c_fd c)) \<and>
     (ready readfds c \<longrightarrow> c_type c = CONN_USER \<and> c_state c = STATE_ACTIVE \<and> 0 < c_fd c)"

section \<open>One connection\<close>

lemma deliver_effect:
  assumes "c_fd c \<noteq> -1"
  shows "sents (deliver c msg s) = sents s @ [answer_sent c msg]" "n_recv (sys (deliver c msg s)) = n_recv (sys s)"
  using assms
  by (simp_all add: deliver_def answer_sent_def socket_send_data_def send_next_def Let_def send_info_to_user_def emit_def sents_def)

lemma close_conn_ok:
  assumes "CONN i s = Some c"
  shows "\<exists>s'. close_conn i s = Some s' \<and> data_same s s' \<and> sents s' = sents s \<and> n_recv (sys s') = n_recv (sys s) \<and>
    recv_res (sys s') = recv_res (sys s) \<and> (\<forall>j. j \<noteq> i \<longrightarrow> CONN j s' = CONN j s)"
proof -
  obtain t where t: "conn_table s = Some t" "i < length (conns t)"
    using assms by (auto simp: CONN_def bind_Some_iff split: if_splits)
  let ?s' = "set_table (t\<lparr>conns := (conns t)[i := Some (c\<lparr>c_fd := -1\<rparr>)]\<rparr>) (emit (Closed (c_fd c)) s)"
  have run: "close_conn i s = Some ?s'" using assms t by (simp add: close_conn_def set_CONN_def)
  have "\<forall>j. j \<noteq> i \<longrightarrow> CONN j ?s' = CONN j s" using t by (simp add: CONN_def)
  moreover have "n_recv (sys ?s') = n_recv (sys s)" "recv_res (sys ?s') = recv_res (sys s)"
    by (simp_all add: set_table_def upd_config_def emit_def)
  ultimately show ?thesis using run close_conn_same [OF run] by (intro exI [of _ ?s']) simp
qed

text \<open>What serving one connection leaves for the next.\<close>

definition passed :: "nat \<Rightarrow> db \<Rightarrow> db \<Rightarrow> bool" where
  "passed i s s' \<longleftrightarrow> db_inv s' \<and> server_env s' = server_env s \<and> recv_res (sys s') = recv_res (sys s) \<and>
     n_recv (sys s') = Suc (n_recv (sys s)) \<and> (\<forall>j. j \<noteq> i \<longrightarrow> CONN j s' = CONN j s)"

lemma serve_ready:
  assumes c: "CONN i s = Some c" "ready readfds c" "servable readfds c" and inv: "db_inv s"
    and line: "delivers (recv_res (sys s)) (n_recv (sys s)) [line]" "line \<noteq> []" "server_ok (server_env s) line (spec_of s)"
    and spec: "server_spec (server_env s) line (spec_of s) = ((code, msg), st1)"
  shows "\<exists>s'. serve_conn readfds i s = Some (code = DB_ERR_SHUTDOWN, s') \<and> passed i s s' \<and> spec_of s' = st1 \<and>
    sents s' = sents s @ [answer_sent c msg]"
proof -
  obtain t where t: "recv_res (sys s) (n_recv (sys s)) = Received t" "line = first_line (take (MAX_CMD_LEN - 1) t)"
    using line(1) by (auto split: recv_result.splits)
  have cc: "c_type c = CONN_USER" "c_state c = STATE_ACTIVE" "c_fd c \<in> set readfds" "0 < c_fd c" "c_fd c < FD_SETSIZE" "c_fd c \<noteq> -1"
    using c(2,3) by (auto simp: ready_def servable_def fd_ok_def)
  obtain s1 where s1: "serve_conn readfds i s =
      (if code = DB_ERR_EXIT then map_option (Pair False) (close_conn i (deliver c msg s1))
       else Some (code = DB_ERR_SHUTDOWN, deliver c msg s1))"
    "db_inv s1" "spec_of s1 = st1" "server_env s1 = server_env s" "one_read s s1"
    using serve_conn_answers [OF c(1) cc(1-5) inv t line(2,3)] unfolding spec fst_conv snd_conv by blast
  let ?d = "deliver c msg s1"
  note e = deliver_effect [OF cc(6), of msg s1] and k = data_sameD [OF deliver_same, of c msg s1] and o = one_readD [OF s1(5)]
  have "recv_res (sys ?d) = recv_res (sys s1)" using deliver_fixed [of c msg s1] unfolding fixed_eq by blast
  then have d: "passed i s ?d" "spec_of ?d = st1" "sents ?d = sents s @ [answer_sent c msg]" "CONN j ?d = CONN j s" for j
    using s1(2-5) e k o table_cong(3) [OF deliver_table]
    by (simp_all add: passed_def one_read_def fixed_eq)
  show ?thesis
  proof (cases "code = DB_ERR_EXIT")
    case False
    then show ?thesis using s1(1) d by simp
  next
    case True
    have "CONN i ?d = Some c" using d(4) c(1) by simp
    from close_conn_ok [OF this] obtain s' where s': "close_conn i ?d = Some s'" "data_same ?d s'" "sents s' = sents ?d"
      "n_recv (sys s') = n_recv (sys ?d)" "recv_res (sys s') = recv_res (sys ?d)" "\<forall>j. j \<noteq> i \<longrightarrow> CONN j s' = CONN j ?d"
      by blast
    then have "passed i s s'" "spec_of s' = st1" using d(1,2) data_sameD [OF s'(2)] by (simp_all add: passed_def)
    then show ?thesis using s1(1) s'(1,3) d(3) True by simp
  qed
qed

lemma serve_asleep:
  assumes "CONN i s = Some c" "\<not> ready readfds c" "servable readfds c"
  shows "serve_conn readfds i s = Some (False, s)"
  using assms by (auto simp: serve_conn_def ready_def servable_def)

section \<open>A pass\<close>

lemma passed_conns: "passed i s s' \<Longrightarrow> i \<notin> set is \<Longrightarrow> map (\<lambda>j. CONN j s') is = map (\<lambda>j. CONN j s) is"
  by (auto simp: passed_def)

lemma serve_conns_pass:
  assumes "map (\<lambda>i. CONN i s) is = map Some cs" "distinct is" "\<forall>c\<in>set cs. servable readfds c" "db_inv s"
    and "length lines = length (filter (ready readfds) cs)" "delivers (recv_res (sys s)) (n_recv (sys s)) lines"
    and "pass_ok (server_env s) (zip (filter (ready readfds) cs) lines) (spec_of s)"
    and "pass_spec (server_env s) (zip (filter (ready readfds) cs) lines) (spec_of s) = (stop, evs, st)"
  shows "\<exists>s'. serve_conns readfds is s = Some (stop, s') \<and> db_inv s' \<and> spec_of s' = st \<and> sents s' = sents s @ evs"
  using assms
proof (induction "is" arbitrary: s cs lines evs)
  case Nil
  then show ?case by simp
next
  case (Cons i "is")
  obtain c cs' where cs: "cs = c # cs'" "CONN i s = Some c" "map (\<lambda>i. CONN i s) is = map Some cs'"
    using Cons.prems(1) by (cases cs) auto
  have sv: "servable readfds c" "\<forall>c\<in>set cs'. servable readfds c" using Cons.prems(3) cs(1) by simp_all
  show ?case
  proof (cases "ready readfds c")
    case False
    have "serve_conns readfds (i # is) s = serve_conns readfds is s"
      using serve_asleep [OF cs(2) False sv(1)] by simp
    then show ?thesis
      using Cons.IH [OF cs(3) _ sv(2) Cons.prems(4), of lines evs] Cons.prems False cs(1) by auto
  next
    case True
    obtain line ls where ls: "lines = line # ls" using Cons.prems(5) cs(1) True by (cases lines) auto
    obtain code msg st1 where spec: "server_spec (server_env s) line (spec_of s) = ((code, msg), st1)" by (metis prod.collapse)
    have ok: "line \<noteq> []" "server_ok (server_env s) line (spec_of s)" "delivers (recv_res (sys s)) (n_recv (sys s)) [line]"
      using Cons.prems(6,7) cs(1) True ls by auto
    from serve_ready [OF cs(2) True sv(1) Cons.prems(4) ok(3,1,2) spec] obtain s1 where
      s1: "serve_conn readfds i s = Some (code = DB_ERR_SHUTDOWN, s1)" "passed i s s1" "spec_of s1 = st1"
        "sents s1 = sents s @ [answer_sent c msg]" by blast
    show ?thesis
    proof (cases "code = DB_ERR_SHUTDOWN")
      case True
      then have "stop" "evs = [answer_sent c msg]" "st = st1"
        using Cons.prems(8) cs(1) \<open>ready readfds c\<close> ls spec by auto
      then show ?thesis using s1 True by (simp add: passed_def)
    next
      case False
      obtain evs' where rest: "pass_spec (server_env s) (zip (filter (ready readfds) cs') ls) st1 = (stop, evs', st)"
        "evs = answer_sent c msg # evs'"
        using Cons.prems(8) cs(1) True ls spec False by (auto split: prod.splits)
      have p: "db_inv s1" "server_env s1 = server_env s" "recv_res (sys s1) = recv_res (sys s)"
        "n_recv (sys s1) = Suc (n_recv (sys s))" using s1(2) by (simp_all add: passed_def)
      have m: "map (\<lambda>i. CONN i s1) is = map Some cs'"
        using passed_conns [OF s1(2), of "is"] Cons.prems(2) cs(3) by simp
      have "\<exists>s'. serve_conns readfds is s1 = Some (stop, s') \<and> db_inv s' \<and> spec_of s' = st \<and> sents s' = sents s1 @ evs'"
        by (rule Cons.IH [OF m _ sv(2) p(1)]) (use Cons.prems cs(1) True ls spec False p s1(3) rest(1) in auto)
      then show ?thesis using s1(1,4) False rest(2) by auto
    qed
  qed
qed

section \<open>A round without a new connection\<close>

lemma watch_conns_ok:
  "map (\<lambda>i. CONN i s) is = map Some cs \<Longrightarrow> \<forall>c\<in>set cs. c_fd c \<noteq> -1 \<longrightarrow> fd_ok (c_fd c) \<Longrightarrow>
    watch_conns is s = Some (filter (\<lambda>fd. fd \<noteq> -1) (map c_fd cs))"
proof (induction "is" arbitrary: cs)
  case (Cons i "is")
  then show ?case by (cases cs) auto
qed simp

lemma server_round_pass:
  assumes t: "table_inv s" "map (\<lambda>i. CONN i s) [0..<conn_len s] = map Some cs" "\<forall>c\<in>set cs. servable rdy c" and inv: "db_inv s"
    and sel: "fd_ok fd" "select_res (sys s) (n_select (sys s)) = (r, rdy)" "0 \<le> r" "fd \<notin> set rdy"
    and lines: "length lines = length (filter (ready rdy) cs)" "delivers (recv_res (sys s)) (n_recv (sys s)) lines"
    and ok: "pass_ok (server_env s) (zip (filter (ready rdy) cs) lines) (spec_of s)"
    and spec: "pass_spec (server_env s) (zip (filter (ready rdy) cs) lines) (spec_of s) = (stop, evs, st)"
  shows "\<exists>s'. server_round fd s = Some (stop, s') \<and> db_inv s' \<and> spec_of s' = st \<and> sents s' = sents s @ evs"
proof -
  define s1 where "s1 = snd (select_next s)"
  let ?fds = "filter (\<lambda>fd. fd \<noteq> -1) (map c_fd cs)"
  let ?rd = "filter (\<lambda>fd. fd \<in> set rdy) (fd # ?fds)"
  have s1: "select_next s = ((r, rdy), s1)" "conn_table s1 = conn_table s" "data_same s s1" "recv_res (sys s1) = recv_res (sys s)"
    "n_recv (sys s1) = n_recv (sys s)" "sents s1 = sents s"
    using sel(2) by (simp_all add: s1_def select_next_def conn_table_def data_same_def sents_def)
  note d = data_sameD [OF s1(3)] and c = table_cong(3) [OF s1(2)]
  have w: "watch_conns [0..<conn_len s] s = Some ?fds"
    by (rule watch_conns_ok [OF t(2)]) (use t(3) in \<open>auto simp: servable_def\<close>)
  have rd: "ready ?rd a = ready rdy a" "servable ?rd a" if "a \<in> set cs" for a
    using that t(3) sel(4) by (auto simp: ready_def servable_def)
  have f: "filter (ready ?rd) cs = filter (ready rdy) cs" by (rule filter_cong) (use rd(1) in auto)
  have n: "NUM_CONNS s = Some (int (conn_len s))" "NUM_CONNS s1 = Some (int (conn_len s))"
    using conn_len_num [OF t(1)] table_cong(4) [OF s1(2)] by simp_all
  have run: "server_round fd s = serve_conns ?rd [0..<conn_len s] s1"
    using s1(1) w n sel by (simp add: server_round_def)
  have "\<exists>s'. serve_conns ?rd [0..<conn_len s] s1 = Some (stop, s') \<and> db_inv s' \<and> spec_of s' = st \<and> sents s' = sents s1 @ evs"
  proof (rule serve_conns_pass)
    show "map (\<lambda>i. CONN i s1) [0..<conn_len s] = map Some cs" using t(2) c by simp
    show "\<forall>c\<in>set cs. servable ?rd c" using rd(2) by blast
    show "db_inv s1" using d(1) inv by simp
    show "length lines = length (filter (ready ?rd) cs)" using lines(1) unfolding f .
    show "delivers (recv_res (sys s1)) (n_recv (sys s1)) lines" using lines(2) s1(4,5) by simp
    show "pass_ok (server_env s1) (zip (filter (ready ?rd) cs) lines) (spec_of s1)" using ok unfolding f d(2,3) .
    show "pass_spec (server_env s1) (zip (filter (ready ?rd) cs) lines) (spec_of s1) = (stop, evs, st)"
      using spec unfolding f d(2,3) .
  qed simp
  then show ?thesis using run s1(6) by simp
qed

end
