(* ===== verification/Demo.thy ===== *)
theory Demo
  imports Request_Proof
begin

text \<open>
  Concrete states on which the witnesses of the properties run: an initialised process
  whose clock stands at 1000, and the same process after requests.
\<close>

definition demo_os :: os where
  "demo_os = \<lparr>clock = (\<lambda>_. 1000), ticks = 0, send_res = (\<lambda>_. 100), n_send = 0,
     recv_res = (\<lambda>n. if n = 0 then Received (''USER_JOIN'' @ [LF]) else EndOfFile), n_recv = 0,
     call_res = (\<lambda>_. 5), n_call = 0, select_res = (\<lambda>_. (1, [5])), n_select = 0,
     files = (\<lambda>_. None), writable = (\<lambda>_. True), io = []\<rparr>"

definition start :: db where
  "start = \<lparr>mem = \<lparr>ents = (\<lambda>_. None), repls = (\<lambda>_. None), nxt = 0, alloc_ok = (\<lambda>_. True), allocs = 0\<rparr>,
     ht = empty_table, ttl = empty_heap, SILENT = False, nl = True, process_save = False,
     app_config = \<lparr>input_fd = 0, output_fd = 0\<rparr>,
     host_config = zero_config\<lparr>savefile := Path DEFAULT_SAVE_FILE\<rparr>,
     slack = 0, uninit = None, sys = demo_os\<rparr>"

definition demo_conn :: conn_t where
  "demo_conn = \<lparr>c_fd = 7, c_type = CONN_USER, c_state = STATE_ACTIVE\<rparr>"

lemma start_simps [simp]:
  "ents (mem start) = (\<lambda>_. None)" "alloc_ok (mem start) n" "ht start = empty_table" "ttl start = empty_heap"
  "ticks (sys start) = 0" "clock (sys start) = (\<lambda>_. 1000)" "slack start = 0" "SILENT start = False"
  by (simp_all add: start_def demo_os_def)

lemma start_inv: "db_inv start" and start_map: "abs_kv start = (\<lambda>_. None)" and start_mem: "mem_ok start"
proof -
  have init: "ents (mem start) = (\<lambda>a. None)" "ht start = empty_table" "ttl start = empty_heap" by simp_all
  show "db_inv start" using init_keeps(1) init by blast
  show "abs_kv start = (\<lambda>_. None)" using init_keeps(2) init by blast
  show "mem_ok start" by (simp add: mem_ok_def)
qed

lemma start_times [simp]: "time_now start = 1000" "spec_clock start = (\<lambda>_. 1000)"
  by (simp_all add: time_now_def spec_clock_def)

text \<open>After \<open>SET k v\<close>.\<close>

definition demo :: db where
  "demo = snd (snd (the (hash_insert ''k'' ''v'' (Some (new_ctx demo_conn)) start)))"

lemma demo_run: "hash_insert ''k'' ''v'' (Some (new_ctx demo_conn)) start =
    Some (DB_ERR_OK, Some ((new_ctx demo_conn)\<lparr>ctx_resp := ''OK'', ctx_status := DB_ERR_OK\<rparr>), demo)"
  and demo_inv: "db_inv demo" and demo_map: "abs_kv demo = [''k'' \<mapsto> (''v'', -1)]"
  and demo_core: "core_only start demo"
proof -
  have "\<not> MAX_ALLOWED \<le> ht_count (ht start) + 1" by (simp add: empty_table_def MAX_ALLOWED_def word_le_nat_alt)
  then obtain s1 where s1: "hash_insert ''k'' ''v'' (Some (new_ctx demo_conn)) start =
      Some (answer (Some (new_ctx demo_conn)) DB_ERR_OK ''OK'' s1)"
    "db_inv s1" "core_only start s1" "abs_kv s1 = [''k'' \<mapsto> (''v'', -1)]"
    using hash_insert_ok [OF start_inv start_mem, of "''v''" "''k''" "Some (new_ctx demo_conn)"]
    by (auto simp: start_map)
  then have "demo = s1" by (simp add: demo_def answer_msg)
  with s1 show "hash_insert ''k'' ''v'' (Some (new_ctx demo_conn)) start =
      Some (DB_ERR_OK, Some ((new_ctx demo_conn)\<lparr>ctx_resp := ''OK'', ctx_status := DB_ERR_OK\<rparr>), demo)"
    "db_inv demo" "abs_kv demo = [''k'' \<mapsto> (''v'', -1)]" "core_only start demo"
    by (simp_all add: answer_msg)
qed

lemma core_only_demoD:
  assumes "core_only start s"
  shows "mem_ok s" "time_now s = 1000" "spec_clock s = (\<lambda>_. 1000)" "slack s = 0" "ticks (sys s) = 0" "SILENT s = False"
  using assms start_mem by (simp_all add: core_only_def mem_ok_def time_now_def spec_clock_def)

lemmas demo_facts [simp] = core_only_demoD [OF demo_core]

text \<open>After \<open>EXPIRE k 50\<close>, which read the clock twice.\<close>

definition demo_exp :: db where
  "demo_exp = snd (snd (the (hash_update_expiry ''k'' 50 (Some (new_ctx demo_conn)) demo)))"

lemma demo_exp_inv: "db_inv demo_exp" and demo_exp_map: "abs_kv demo_exp = [''k'' \<mapsto> (''v'', 1050)]"
  and demo_exp_core: "core_only (tick (tick demo)) demo_exp"
proof -
  have live: "live_at (time_now demo) (abs_kv demo ''k'')" by (simp add: demo_map)
  have t: "time_now (tick demo) = 1000"
    using demo_core by (simp add: time_now_def tick_def core_only_def)
  have la: "long_add (time_now (tick demo)) 50 = Some 1050" "(1050 :: int) \<noteq> LONG_MAX"
    by (simp_all add: t long_add_def LONG_MAX_def LONG_MIN_def)
  obtain s1 where s1: "hash_update_expiry ''k'' 50 (Some (new_ctx demo_conn)) demo =
      Some (answer (Some (new_ctx demo_conn)) DB_ERR_OK ''OK'' s1)" "db_inv s1"
    "abs_kv s1 = (abs_kv demo)(''k'' \<mapsto> (''v'', 1050))" "core_only (tick (tick demo)) s1"
    using hash_update_expiry_ok [OF demo_inv live la, of "Some (new_ctx demo_conn)"] by (auto simp: demo_map)
  then have "demo_exp = s1" by (simp add: demo_exp_def answer_msg)
  with s1 show "db_inv demo_exp" "abs_kv demo_exp = [''k'' \<mapsto> (''v'', 1050)]"
    "core_only (tick (tick demo)) demo_exp" by (simp_all add: demo_map)
qed

lemma demo_exp_facts [simp]: "mem_ok demo_exp" "spec_clock demo_exp = (\<lambda>_. 1000)" "slack demo_exp = 0"
  "ticks (sys demo_exp) = 2" "time_now demo_exp = 1000"
proof -
  have c: "core_only (tick (tick demo)) demo_exp" by (rule demo_exp_core)
  show "mem_ok demo_exp" using c demo_facts(1) by (simp add: core_only_def mem_ok_def)
  show "spec_clock demo_exp = (\<lambda>_. 1000)" "time_now demo_exp = 1000" "slack demo_exp = 0" "ticks (sys demo_exp) = 2"
    using c demo_core by (simp_all add: core_only_def spec_clock_def time_now_def tick_def)
qed

text \<open>Requests as a client types them.\<close>

lemma demo_words: "tokenize ''get k'' = [''get'', ''k'']" "tokenize ''SET a b'' = [''SET'', ''a'', ''b'']"
  "tokenize ''expire k 50'' = [''expire'', ''k'', ''50'']"
  by code_simp+

lemma demo_spec: "spec_of demo = ([''k'' \<mapsto> (''v'', -1)], 0)"
  by (simp add: spec_of_def demo_map)

lemma demo_case: "\<not> strcaseeq ''HELP'' ''get''" "\<not> strcaseeq ''SET'' ''get''" "\<not> strcaseeq ''EXISTS'' ''get''"
  "strcaseeq ''GET'' ''get''" "\<not> strcaseeq ''EXPIRE'' ''get''" "\<not> strcaseeq ''SAVE'' ''get''"
  "\<not> strcaseeq ''HELP'' ''SET''" "\<not> strcaseeq ''EXPIRE'' ''SET''" "\<not> strcaseeq ''SAVE'' ''SET''"
  by code_simp+

lemma demo_get: "spec_request (\<lambda>_. 1000) [''get'', ''k''] ([''k'' \<mapsto> (''v'', -1)], 0) =
    ((DB_ERR_OK, ''v''), ([''k'' \<mapsto> (''v'', -1)], 1))"
  by (simp add: spec_request_def demo_case sp_get_def sp_visit_def)

lemma demo_request_ok: "request_ok sl clk [''get'', ''k''] t" "request_ok sl clk [''SET'', ''a'', ''b''] t"
  by (simp_all add: request_ok_def demo_case)

end
