(* ===== verification/Save_Proof.thy ===== *)
theory Save_Proof
  imports Hash_Write Dbsave
begin

text \<open>
  What \<open>fetch_dataset_from_memory\<close> writes: for every bucket that is not empty one line with
  the entries of its list, in order.
\<close>

section \<open>The line of a bucket\<close>

definition exp_str :: "int \<Rightarrow> string" where
  "exp_str x = (if x \<noteq> LONG_MAX then show_zu x else ''-1'')"

text \<open>An entry in the file, without the bar after it.\<close>

definition kv_str :: "string \<Rightarrow> string \<Rightarrow> int \<Rightarrow> string" where
  "kv_str k v x = k @ ''!'' @ v @ ''!'' @ exp_str x"

definition ent_str :: "(addr \<Rightarrow> Entry option) \<Rightarrow> addr \<Rightarrow> string" where
  "ent_str st a = (case st a of None \<Rightarrow> [] | Some e \<Rightarrow> kv_str (e_key e) (e_value e) (e_expiry e))"

definition list_str :: "string list \<Rightarrow> string" where
  "list_str xs = concat (map (\<lambda>x. x @ ''|'') xs)"

lemma list_str_simps [simp]: "list_str [] = []" "list_str (x # xs) = x @ CHR ''|'' # list_str xs"
  by (simp_all add: list_str_def)

text \<open>The expiry fits its buffer when it has at most 19 digits, or with one byte of padding.\<close>

definition exp_fits :: "nat \<Rightarrow> int \<Rightarrow> bool" where
  "exp_fits sl x \<longleftrightarrow> 0 \<le> x \<or> 0 < sl"

lemma show_zu_bound: "length (show_zu x) \<le> 20"
proof -
  have "nat (x mod 2 ^ 64) < 10 ^ Suc 19"
    using pos_mod_bound [of "2 ^ 64" x] by (simp add: nat_less_iff)
  from length_dec_nat_le [OF this] show ?thesis by (simp add: show_zu_def)
qed

lemma show_zu_19: "0 \<le> x \<Longrightarrow> x \<le> LONG_MAX \<Longrightarrow> length (show_zu x) \<le> 19"
proof -
  assume x: "0 \<le> x" "x \<le> LONG_MAX"
  then have "nat (x mod 2 ^ 64) < 10 ^ Suc 18" by (simp add: LONG_MAX_def nat_less_iff)
  from length_dec_nat_le [OF this] show ?thesis by (simp add: show_zu_def)
qed

lemma expiry_text_ok: "exp_fits sl x \<Longrightarrow> x \<le> LONG_MAX \<Longrightarrow> expiry_text sl x = Some (exp_str x)"
  using show_zu_bound [of x] show_zu_19 [of x]
  by (auto simp: expiry_text_def exp_str_def exp_fits_def sprintf_to_def)

lemma exp_str_length: "length (exp_str x) \<le> 20"
  using show_zu_bound [of x] by (simp add: exp_str_def)

lemma kv_loop_seg:
  assumes "seg st p as None"
    and "\<And>a e. a \<in> set as \<Longrightarrow> st a = Some e \<Longrightarrow> exp_fits sl (e_expiry e) \<and> e_expiry e \<le> LONG_MAX"
    and "length data + length (list_str (map (ent_str st) as)) \<le> min cap INT_MAX"
  shows "kv_loop st sl cap p data = Some (data @ list_str (map (ent_str st) as))"
  using assms
proof (induction as arbitrary: p data)
  case Nil
  then show ?case by (subst kv_loop.simps) simp
next
  case (Cons a as)
  then obtain e where p: "p = Some a" and e: "st a = Some e" and rest: "seg st (e_next e) as None" by auto
  let ?data = "data @ e_key e @ ''!'' @ e_value e @ ''!'' @ exp_str (e_expiry e) @ ''|''"
  have ex: "expiry_text sl (e_expiry e) = Some (exp_str (e_expiry e))"
    using Cons.prems(2) [of a e] e by (intro expiry_text_ok) auto
  have es: "ent_str st a = e_key e @ ''!'' @ e_value e @ ''!'' @ exp_str (e_expiry e)"
    by (simp add: ent_str_def kv_str_def e)
  have "kv_loop st sl cap (e_next e) ?data = Some (?data @ list_str (map (ent_str st) as))"
    by (rule Cons.IH [OF rest]) (use Cons.prems(2,3) es in auto)
  moreover have "length ?data \<le> cap" "length ?data \<le> INT_MAX" using Cons.prems(3) es by simp_all
  ultimately show ?case by (subst kv_loop.simps) (simp add: p e ex es Let_def)
qed

section \<open>What can be saved\<close>

text \<open>The bytes an entry of the map takes in the file, with its bar.\<close>

definition entry_bytes :: "kvmap \<Rightarrow> string \<Rightarrow> nat" where
  "entry_bytes m k = (case m k of None \<Rightarrow> 0 | Some (v, x) \<Rightarrow> length (kv_str k v x) + 1)"

definition bucket_bytes :: "kvmap \<Rightarrow> nat \<Rightarrow> nat" where
  "bucket_bytes m i = (\<Sum>k | k \<in> dom m \<and> string_folding_hash k = i. entry_bytes m k)"

text \<open>A word that the separators of the file do not cut.\<close>

definition field_ok :: "string \<Rightarrow> bool" where
  "field_ok w \<longleftrightarrow> w \<noteq> [] \<and> (\<forall>c\<in>set w. \<not> is_bar c \<and> \<not> is_bang c \<and> c \<noteq> LF \<and> c \<noteq> NUL)"

text \<open>
  Keys and values without separators, expiries that fit their buffer, entries of at most
  \<open>KV_LEN\<close> bytes, and buckets whose line is read back by one \<open>fgets\<close>.
\<close>

definition savable :: "nat \<Rightarrow> kvmap \<Rightarrow> bool" where
  "savable sl m \<longleftrightarrow>
     (\<forall>k v x. m k = Some (v, x) \<longrightarrow> field_ok k \<and> field_ok v \<and> exp_fits sl x \<and> entry_bytes m k \<le> 1024) \<and>
     (\<forall>i<MOD. bucket_bytes m i < MAX_RESP_LEN) \<and> 1024 * (card (dom m) + 1) < 2 ^ 64"

lemma list_str_length: "length (list_str xs) = sum_list (map (\<lambda>x. length x + 1) xs)"
  by (induction xs) auto

lemma bucket_keys:
  assumes "db_inv s" "bucket_list (ents (mem s)) i p as"
  shows "set (map (key_of (ents (mem s))) as) = {k. k \<in> dom (abs_kv s) \<and> string_folding_hash k = i}"
proof (intro set_eqI iffI)
  fix k assume "k \<in> set (map (key_of (ents (mem s))) as)"
  then obtain a where a: "a \<in> set as" "key_of (ents (mem s)) a = k" by auto
  then obtain e where "ents (mem s) a = Some e" "string_folding_hash (e_key e) = i"
    using assms(2) by (auto simp: bucket_list_def in_bucket_def)
  then show "k \<in> {k. k \<in> dom (abs_kv s) \<and> string_folding_hash k = i}"
    using a abs_kv_hit [OF assms(1)] by auto
next
  fix k assume k: "k \<in> {k. k \<in> dom (abs_kv s) \<and> string_folding_hash k = i}"
  then have "abs_kv s k \<noteq> None" by blast
  then obtain a e where a: "ents (mem s) a = Some e" "e_key e = k" using abs_kv_None [OF assms(1), of k] by metis
  then have "a \<in> set as" using assms(2) k by (auto simp: bucket_list_def in_bucket_def)
  then show "k \<in> set (map (key_of (ents (mem s))) as)" using a by force
qed

lemma ent_str_abs:
  assumes "db_inv s" "ents (mem s) a = Some e"
  shows "length (ent_str (ents (mem s)) a) + 1 = entry_bytes (abs_kv s) (e_key e)"
  using abs_kv_hit [OF assms refl] assms(2) by (simp add: ent_str_def entry_bytes_def)

lemma bucket_line_length:
  assumes inv: "db_inv s" and l: "bucket_list (ents (mem s)) i p as"
  shows "length (list_str (map (ent_str (ents (mem s))) as)) = bucket_bytes (abs_kv s) i"
proof -
  let ?st = "ents (mem s)" and ?ks = "map (key_of (ents (mem s))) as"
  have "length (ent_str ?st a) + 1 = entry_bytes (abs_kv s) (key_of ?st a)" if "a \<in> set as" for a
  proof -
    obtain e where "?st a = Some e" using l seg_dom \<open>a \<in> set as\<close> by (fastforce simp: bucket_list_def)
    then show ?thesis using ent_str_abs [OF inv] by simp
  qed
  then have "sum_list (map (\<lambda>a. length (ent_str ?st a) + 1) as) = sum_list (map (\<lambda>a. entry_bytes (abs_kv s) (key_of ?st a)) as)"
    by (intro arg_cong [where f = sum_list] map_cong) auto
  then have "length (list_str (map (ent_str ?st) as)) = sum_list (map (entry_bytes (abs_kv s)) ?ks)"
    unfolding list_str_length map_map comp_def .
  also have "\<dots> = (\<Sum>k\<in>set ?ks. entry_bytes (abs_kv s) k)"
    using l by (intro sum_list_distinct_conv_sum_set) (simp add: bucket_list_def)
  finally show ?thesis unfolding bucket_keys [OF inv l] bucket_bytes_def .
qed

lemma sum_list_le: "(\<And>x. x \<in> set xs \<Longrightarrow> f x \<le> (n::nat)) \<Longrightarrow> sum_list (map f xs) \<le> n * length xs"
  by (induction xs) (auto simp: add_mono)

text \<open>The buffer for the line of a bucket is large enough.\<close>

lemma bucket_line_cap:
  assumes inv: "db_inv s" and l: "bucket_list (ents (mem s)) i p as" and sv: "savable sl (abs_kv s)"
  shows "length (list_str (map (ent_str (ents (mem s))) as)) \<le> unat (KV_LEN * (ht_count (ht s) + 1))"
proof -
  let ?st = "ents (mem s)" and ?n = "unat (ht_count (ht s))"
  have fin: "finite (dom ?st)" and n: "?n = card (dom ?st)" using inv dom_finite by (auto simp: db_inv_def)
  have "set as \<subseteq> dom ?st" using l by (auto simp: bucket_list_def in_bucket_def)
  moreover have "distinct as" using l by (auto simp: bucket_list_def distinct_map)
  ultimately have len: "length as \<le> ?n" using card_mono [OF fin] distinct_card n by metis
  have "length (ent_str ?st a) + 1 \<le> 1024" if a: "a \<in> set as" for a
  proof -
    obtain e where e: "?st a = Some e" using l seg_dom a by (fastforce simp: bucket_list_def)
    show ?thesis using ent_str_abs [OF inv e] abs_kv_hit [OF inv e refl] sv by (simp add: savable_def)
  qed
  then have "length (list_str (map (ent_str ?st) as)) \<le> 1024 * length as"
    unfolding list_str_length map_map comp_def by (rule sum_list_le)
  also have "\<dots> \<le> 1024 * (?n + 1)" using len by simp
  also have "\<dots> = unat (KV_LEN * (ht_count (ht s) + 1))"
  proof -
    have "1024 * (?n + 1) < 2 ^ 64" using sv card_dom_abs [OF inv] by (simp add: savable_def)
    then show ?thesis by (simp add: KV_LEN_def unat_word_ariths)
  qed
  finally show ?thesis .
qed

section \<open>The file\<close>

definition block :: "string list \<Rightarrow> string" where
  "block xs = (if xs = [] then [] else ''$'' @ [LF] @ butlast (list_str xs) @ [LF] @ ''$'' @ [LF])"

definition bucket_strs :: "db \<Rightarrow> addr list \<Rightarrow> string list" where
  "bucket_strs s as = map (ent_str (ents (mem s))) as"

lemma list_str_length_ge: "xs \<noteq> [] \<Longrightarrow> \<forall>x\<in>set xs. x \<noteq> [] \<Longrightarrow> 1 < length (list_str xs)"
  by (cases xs) (auto simp: neq_Nil_conv)

lemma get_kv_from_bucket_ok:
  assumes inv: "db_inv s" and ok: "mem_ok s" and sv: "savable (slack s) (abs_kv s)"
    and l: "bucket_list (ents (mem s)) i p as" and i: "i < MOD"
  shows "\<exists>s1. get_kv_from_bucket p s = Some (if as = [] then None else Some (butlast (list_str (bucket_strs s as))), s1) \<and>
    mem s1 = (mem s)\<lparr>allocs := allocs (mem s1)\<rparr> \<and> s1 = s\<lparr>mem := mem s1\<rparr>"
proof (cases p)
  case None
  then have "as = []" using l by (cases as) (auto simp: bucket_list_def)
  then show ?thesis using None by (simp add: get_kv_from_bucket_def)
next
  case (Some a)
  then have ne: "as \<noteq> []" using l by (auto simp: bucket_list_def)
  obtain b s1 where m: "malloc_ok s = (b, s1)" by fastforce
  then have s1: "b" "mem s1 = (mem s)\<lparr>allocs := allocs (mem s1)\<rparr>" "s1 = s\<lparr>mem := mem s1\<rparr>"
    using ok by (auto simp: malloc_ok_def alloc_def mem_ok_def)
  have e: "ents (mem s1) = ents (mem s)" "slack s1 = slack s" "ht s1 = ht s"
    using malloc_ok_keeps [OF m] by (simp_all add: core_only_def)
  have fits: "exp_fits (slack s) (e_expiry x) \<and> e_expiry x \<le> LONG_MAX" if "ents (mem s) c = Some x" for c x
    using sv abs_kv_hit [OF inv that refl] inv that by (simp add: savable_def db_inv_def store_ok_def entry_ok_def)
  have short: "length (list_str (map (ent_str (ents (mem s))) as)) < MAX_RESP_LEN"
    using bucket_line_length [OF inv l] sv i by (simp add: savable_def)
  have "kv_loop (ents (mem s)) (slack s) (unat (KV_LEN * (ht_count (ht s) + 1))) p [] =
      Some ([] @ list_str (map (ent_str (ents (mem s))) as))"
  proof (rule kv_loop_seg)
    show "seg (ents (mem s)) p as None" using l by (simp add: bucket_list_def)
    show "length [] + length (list_str (map (ent_str (ents (mem s))) as)) \<le> min (unat (KV_LEN * (ht_count (ht s) + 1))) INT_MAX"
      using bucket_line_cap [OF inv l sv] short by simp
  qed (use fits in blast)
  then show ?thesis
    using Some m s1 ne e by (simp add: get_kv_from_bucket_def bucket_strs_def)
qed

lemma ent_str_nonempty: "ents (mem s) a = Some e \<Longrightarrow> ent_str (ents (mem s)) a \<noteq> []"
  by (simp add: ent_str_def kv_str_def)

text \<open>Only the count of allocations differs.\<close>

definition alloc_only :: "db \<Rightarrow> db \<Rightarrow> bool" where
  "alloc_only s s' \<longleftrightarrow> (\<exists>n. s' = s\<lparr>mem := (mem s)\<lparr>allocs := n\<rparr>\<rparr>)"

lemma alloc_onlyD:
  assumes "alloc_only s s'"
  shows "ents (mem s') = ents (mem s)" "nxt (mem s') = nxt (mem s)" "ht s' = ht s" "ttl s' = ttl s"
    "slack s' = slack s" "core_only s s'" "sys s' = sys s" "host_config s' = host_config s"
    "alloc_ok (mem s') = alloc_ok (mem s)" "mem s' = (mem s)\<lparr>allocs := allocs (mem s')\<rparr>"
proof -
  obtain n where s': "s' = s\<lparr>mem := (mem s)\<lparr>allocs := n\<rparr>\<rparr>" using assms unfolding alloc_only_def by blast
  show "ents (mem s') = ents (mem s)" "nxt (mem s') = nxt (mem s)" "ht s' = ht s" "ttl s' = ttl s"
    "slack s' = slack s" "core_only s s'" "sys s' = sys s" "host_config s' = host_config s"
    "alloc_ok (mem s') = alloc_ok (mem s)" "mem s' = (mem s)\<lparr>allocs := allocs (mem s')\<rparr>"
    unfolding s' by (simp_all add: core_only_def)
qed

lemma alloc_only_inv:
  assumes "alloc_only s s'" "db_inv s"
  shows "db_inv s'" "abs_kv s' = abs_kv s" "mem_ok s' = mem_ok s"
  using db_inv_ents [OF assms(2), of s'] alloc_onlyD [OF assms(1)] by (simp_all add: mem_ok_def)

lemma alloc_only_trans: "alloc_only s s1 \<Longrightarrow> alloc_only s1 s2 \<Longrightarrow> alloc_only s s2"
  by (auto simp: alloc_only_def)

lemma alloc_only_refl [simp]: "alloc_only s s"
  unfolding alloc_only_def by (rule exI [of _ "allocs (mem s)"]) simp

lemma bucket_strs_alloc: "alloc_only s s' \<Longrightarrow> bucket_strs s' as = bucket_strs s as"
  by (simp add: bucket_strs_def alloc_onlyD(1))

lemma save_buckets_ok:
  assumes "db_inv s" "mem_ok s" "savable (slack s) (abs_kv s)"
    and "\<And>i. i \<in> set is \<Longrightarrow> i < MOD \<and> bucket_list (ents (mem s)) i (buckets (ht s) ! i) (L i)"
  shows "\<exists>s'. save_buckets is buf s = Some (buf @ concat (map (\<lambda>i. block (bucket_strs s (L i))) is), s') \<and> alloc_only s s'"
  using assms
proof (induction "is" arbitrary: s buf)
  case Nil
  then show ?case by simp
next
  case (Cons i "is")
  have i: "i < MOD" "bucket_list (ents (mem s)) i (buckets (ht s) ! i) (L i)" using Cons.prems(4) [of i] by auto
  obtain s1 where g: "get_kv_from_bucket (buckets (ht s) ! i) s =
      Some (if L i = [] then None else Some (butlast (list_str (bucket_strs s (L i)))), s1)"
    "mem s1 = (mem s)\<lparr>allocs := allocs (mem s1)\<rparr>" "s1 = s\<lparr>mem := mem s1\<rparr>"
    using get_kv_from_bucket_ok [OF Cons.prems(1-3) i(2)] i(1) by blast
  have a1: "alloc_only s s1" unfolding alloc_only_def using g(2,3) by metis
  note d = alloc_onlyD [OF a1] and v = alloc_only_inv [OF a1 Cons.prems(1)]
  have b: "bucket_at s i = Some (buckets (ht s) ! i)"
    using Cons.prems(1) i(1) by (simp add: bucket_at_def db_inv_def table_ok_def)
  let ?buf = "buf @ block (bucket_strs s (L i))"
  obtain s2 where s2: "save_buckets is ?buf s1 = Some (?buf @ concat (map (\<lambda>i. block (bucket_strs s1 (L i))) is), s2)"
    "alloc_only s1 s2"
    using Cons.IH [of s1 ?buf] v d Cons.prems(2,3,4) by auto
  have step: "(case if L i = [] then None else Some (butlast (list_str (bucket_strs s (L i)))) of None \<Rightarrow> buf
        | Some d \<Rightarrow> if 0 < length d then buf @ ''$'' @ [LF] @ d @ [LF] @ ''$'' @ [LF] else buf) = ?buf"
  proof (cases "L i = []")
    case False
    have "\<forall>x\<in>set (bucket_strs s (L i)). x \<noteq> []"
      using i(2) seg_dom ent_str_nonempty by (fastforce simp: bucket_list_def bucket_strs_def)
    moreover have "bucket_strs s (L i) \<noteq> []" using False by (simp add: bucket_strs_def)
    ultimately have "1 < length (list_str (bucket_strs s (L i)))" by (rule list_str_length_ge [rotated])
    then show ?thesis using False by (simp add: block_def bucket_strs_def)
  qed (simp add: block_def bucket_strs_def)
  have "save_buckets (i # is) buf s = save_buckets is ?buf s1"
    using b g(1) step by simp
  then show ?case
    using s2 alloc_only_trans [OF a1 s2(2)] bucket_strs_alloc [OF a1] by simp
qed

text \<open>The list of each bucket, and the text of the whole file.\<close>

definition bucket_addrs :: "db \<Rightarrow> nat \<Rightarrow> addr list" where
  "bucket_addrs s i = (SOME as. bucket_list (ents (mem s)) i (buckets (ht s) ! i) as)"

lemma bucket_addrs: "db_inv s \<Longrightarrow> i < MOD \<Longrightarrow> bucket_list (ents (mem s)) i (buckets (ht s) ! i) (bucket_addrs s i)"
  unfolding bucket_addrs_def by (rule someI_ex) (simp add: db_inv_def table_ok_def)

definition file_text :: "db \<Rightarrow> string" where
  "file_text s = FILE_HEADER_VER @ [LF] @ concat (map (\<lambda>i. block (bucket_strs s (bucket_addrs s i))) [0..<MOD])"

lemma fetch_ok:
  assumes inv: "db_inv s" and ok: "mem_ok s" and sv: "savable (slack s) (abs_kv s)"
    and path: "savefile (host_config s) = Path p" "writable (sys s) p" "length p < 8000"
  shows "\<exists>s1. alloc_only s s1 \<and> fetch_dataset_from_memory s =
    Some (DB_ERR_OK, send_info_to_user (''Data from disk written to '' @ p) (write_file p (file_text s) s1))"
proof -
  obtain s1 where s1: "save_buckets [0..<MOD] (FILE_HEADER_VER @ [LF]) s =
      Some ((FILE_HEADER_VER @ [LF]) @ concat (map (\<lambda>i. block (bucket_strs s (bucket_addrs s i))) [0..<MOD]), s1)"
    "alloc_only s s1"
    using save_buckets_ok [OF inv ok sv, of "[0..<MOD]" "bucket_addrs s" "FILE_HEADER_VER @ [LF]"] bucket_addrs [OF inv]
    by (simp del: append_assoc) blast
  have "ht_size (ht s) = MOD" using inv by (simp add: db_inv_def)
  then show ?thesis
    using s1 path by (intro exI [of _ s1]) (simp add: fetch_dataset_from_memory_def file_text_def sprintf_to_def write_file_def)
qed

end
