(* ===== verification/Load_Proof.thy ===== *)
theory Load_Proof
  imports Save_Proof
begin

text \<open>
  What \<open>rebuild_from_savefile\<close> makes of a file that \<open>fetch_dataset_from_memory\<close> wrote: the map
  that was saved, with -1 and \<open>LONG_MAX\<close> exchanged as expiry and without the keys whose time
  has passed.
\<close>

section \<open>One line\<close>

definition line_ok :: "string \<Rightarrow> bool" where
  "line_ok l \<longleftrightarrow> (\<forall>c\<in>set l. c \<noteq> LF \<and> c \<noteq> NUL) \<and> length l + 1 < MAX_RESP_LEN"

lemma fgets_line:
  assumes "line_ok l"
  shows "fgets MAX_RESP_LEN (l @ LF # rest) = (l @ [LF], rest)"
proof -
  have "takeWhile (\<lambda>c. c \<noteq> LF) (l @ LF # rest) = l" using assms by (intro takeWhile_stop) (auto simp: line_ok_def)
  then show ?thesis using assms by (simp add: fgets_def Let_def line_ok_def)
qed

lemma chomp_line:
  assumes "line_ok l"
  shows "chomp (l @ [LF]) = l"
proof -
  have "takeWhile (\<lambda>c. c \<noteq> NUL) (l @ [LF]) = l @ [LF]"
    using assms by (intro takeWhile_eq_all_conv [THEN iffD2]) (auto simp: line_ok_def)
  then show ?thesis by (simp add: chomp_def)
qed

lemma rebuild_line:
  assumes "line_ok l"
  shows "rebuild_lines (l @ LF # rest) s =
    process_save_data l (s\<lparr>SILENT := True\<rparr>) \<bind> (\<lambda>s1. rebuild_lines rest (s1\<lparr>SILENT := False\<rparr>))"
  by (subst rebuild_lines.simps) (simp add: fgets_line [OF assms] chomp_line [OF assms])

text \<open>The entries of a line, one after the other.\<close>

primrec load_all :: "string list \<Rightarrow> db \<Rightarrow> db option" where
  "load_all [] s = Some s"
| "load_all (x # xs) s = process_kv x s \<bind> load_all xs"

lemma process_kvs_list:
  assumes "\<forall>x\<in>set xs. x \<noteq> [] \<and> (\<forall>c\<in>set x. \<not> is_bar c)"
  shows "process_kvs (butlast (list_str xs)) s = load_all xs s"
  using assms
proof (induction xs arbitrary: s)
  case Nil
  then show ?case by (simp add: process_kvs.simps)
next
  case (Cons x xs)
  have x: "x \<noteq> []" "\<forall>c\<in>set x. \<not> is_bar c" using Cons.prems by auto
  show ?case
  proof (cases "xs = []")
    case True
    have "process_kvs [] = load_all []" by (rule ext) (simp add: process_kvs.simps)
    then show ?thesis
      using strtok_r_last [OF x] True by (subst process_kvs.simps) (simp add: butlast_append)
  next
    case False
    then have "list_str xs \<noteq> []" by (cases xs) auto
    then have "butlast (list_str (x # xs)) = x @ CHR ''|'' # butlast (list_str xs)"
      by (simp add: butlast_append)
    moreover have "strtok_r is_bar (x @ CHR ''|'' # butlast (list_str xs)) = Some (x, butlast (list_str xs))"
      by (rule strtok_r_token [OF x]) (simp add: is_bar_def)
    moreover have "process_kvs (butlast (list_str xs)) = load_all xs" using Cons by (intro ext) simp
    ultimately show ?thesis by (subst process_kvs.simps) simp
  qed
qed

section \<open>One entry\<close>

text \<open>The expiry that comes back, and whether the key is dropped at time \<open>now\<close>.\<close>

definition reload :: "int \<Rightarrow> int" where
  "reload x = (if x = LONG_MAX then -1 else if x = -1 then LONG_MAX else x)"

definition gone :: "int \<Rightarrow> int \<Rightarrow> bool" where
  "gone now x \<longleftrightarrow> x \<noteq> LONG_MAX \<and> reload x \<le> now"

definition restored :: "int \<Rightarrow> kvmap \<Rightarrow> kvmap" where
  "restored now m k = (case m k of None \<Rightarrow> None | Some (v, x) \<Rightarrow> if gone now x then None else Some (v, reload x))"

lemma restored_same:
  "restored now m = m \<longleftrightarrow> (\<forall>k v x. m k = Some (v, x) \<longrightarrow> now < x \<and> x \<noteq> -1 \<and> x \<noteq> LONG_MAX)"
proof
  assume same: "restored now m = m"
  show "\<forall>k v x. m k = Some (v, x) \<longrightarrow> now < x \<and> x \<noteq> -1 \<and> x \<noteq> LONG_MAX"
  proof (intro allI impI)
    fix k v x assume "m k = Some (v, x)"
    then have "(if gone now x then None else Some (v, reload x)) = Some (v, x)"
      using fun_cong [OF same, of k] by (simp add: restored_def)
    then show "now < x \<and> x \<noteq> -1 \<and> x \<noteq> LONG_MAX" by (auto simp: gone_def reload_def LONG_MAX_def split: if_splits)
  qed
next
  assume "\<forall>k v x. m k = Some (v, x) \<longrightarrow> now < x \<and> x \<noteq> -1 \<and> x \<noteq> LONG_MAX"
  then show "restored now m = m"
    by (intro ext) (fastforce simp: restored_def gone_def reload_def split: option.split)
qed

lemma exp_str_chars: "c \<in> set (exp_str x) \<Longrightarrow> \<not> is_bar c \<and> \<not> is_bang c \<and> c \<noteq> LF \<and> c \<noteq> NUL"
  using dec_nat_digits [of c "nat (x mod 2 ^ 64)"]
  by (auto simp: exp_str_def show_zu_def c_isdigit_def is_bar_def is_bang_def split: if_splits)

lemma exp_str_nonempty [simp]: "exp_str x \<noteq> []"
  by (simp add: exp_str_def show_zu_def)

lemma exp_str_minus: "exp_str x = ''-1'' \<longleftrightarrow> x = LONG_MAX"
proof -
  have "show_zu x \<noteq> ''-1''"
  proof
    assume "show_zu x = ''-1''"
    then have "c_isdigit CHR ''-''" using dec_nat_digits [of "CHR ''-''" "nat (x mod 2 ^ 64)"] by (simp add: show_zu_def)
    then show False by (simp add: c_isdigit_def)
  qed
  then show ?thesis by (simp add: exp_str_def)
qed

lemma atol_exp_str:
  assumes "x \<noteq> LONG_MAX" "x = -1 \<or> 0 \<le> x" "x \<le> LONG_MAX"
  shows "atol (exp_str x) = reload x"
proof (cases "x = -1")
  case True
  have "nat (-1 mod 2 ^ 64) = 18446744073709551615" by simp
  then have "atol (show_zu (-1)) = LONG_MAX" unfolding show_zu_def by (simp add: atol_dec_nat LONG_MAX_def)
  then show ?thesis using True assms(1) by (simp add: exp_str_def reload_def)
next
  case False
  then have "0 \<le> x" using assms(2) by simp
  from atol_show_zu [OF this assms(3)] show ?thesis using False assms(1) by (simp add: exp_str_def reload_def)
qed

lemma next_field_cut: "field_ok w \<Longrightarrow> next_field (w @ CHR ''!'' # r) = (Some w, r)"
  using strtok_r_token [of w is_bang "CHR ''!''" r] by (simp add: next_field_def field_ok_def is_bang_def)

lemma next_field_end: "w \<noteq> [] \<Longrightarrow> \<forall>c\<in>set w. \<not> is_bang c \<Longrightarrow> next_field w = (Some w, [])"
  using strtok_r_last [of w is_bang] by (simp add: next_field_def)

text \<open>The state while the file is read: nothing is in the expiry heap.\<close>

definition loading :: "(nat \<Rightarrow> int) \<Rightarrow> bool \<Rightarrow> kvmap \<Rightarrow> db \<Rightarrow> bool" where
  "loading clk b m s \<longleftrightarrow> db_inv s \<and> mem_ok s \<and> heap_set (ttl s) = {} \<and> abs_kv s = m \<and>
     clock (sys s) = clk \<and> process_save s = b"

lemma loading_simps [simp]:
  "loading clk b m (s\<lparr>SILENT := q\<rparr>) = loading clk b m s"
  "loading clk b m (s\<lparr>process_save := q\<rparr>) = (loading clk (process_save s) m s \<and> b = q)"
  by (auto simp: loading_def mem_ok_def)

lemma loading_tick [simp]: "loading clk b m (tick s) = loading clk b m s"
  by (simp add: loading_def mem_ok_def) (simp add: tick_def)

lemma loading_core:
  assumes "loading clk b m s" "core_only s s'" "db_inv s'" "heap_set (ttl s') \<subseteq> heap_set (ttl s)"
  shows "loading clk b (abs_kv s') s'"
  using assms mem_ok_core [OF assms(2)] by (auto simp: loading_def core_only_def)

lemma answer_silent: "SILENT s \<Longrightarrow> answer None r msg s = (r, None, s)"
  by (simp add: answer_def fill_cmd_ctx_def send_info_silent)

lemma process_kv_ok:
  assumes ld: "loading clk b m s" and silent: "SILENT s" and new: "m k = None"
    and room: "card (dom m) + 2 < 9223372036854775807"
    and f: "field_ok k" "field_ok v" "length v < MAX_RESP_LEN" and x: "x = -1 \<or> 0 \<le> x" "x \<le> LONG_MAX"
    and now: "\<And>n. gone (clk n) x = gone now x"
  shows "\<exists>s'. process_kv (kv_str k v x) s = Some s' \<and>
    loading clk b (if gone now x then m else m(k \<mapsto> (v, reload x))) s' \<and> SILENT s'"
proof -
  have inv: "db_inv s" "mem_ok s" "abs_kv s = m" using ld by (auto simp: loading_def)
  have cnt: "\<not> MAX_ALLOWED \<le> ht_count (ht s) + 1"
    using card_dom_abs [OF inv(1)] room inv(3) by (simp add: MAX_ALLOWED_def word_le_nat_alt unat_word_ariths)
  obtain s1 where s1: "hash_insert k v None s = Some (answer None DB_ERR_OK ''OK'' s1)"
    "db_inv s1" "core_only s s1" "ttl s1 = ttl s" "abs_kv s1 = m(k \<mapsto> (v, -1))"
    using hash_insert_ok [OF inv(1,2) f(3), of k None] cnt inv(3) new by auto
  have sil1: "SILENT s1" using s1(3) silent by (simp add: core_only_def)
  have ld1: "loading clk b (m(k \<mapsto> (v, -1))) s1"
    using loading_core [OF ld s1(3,2)] s1(4,5) by simp
  have flds: "next_field (kv_str k v x) = (Some k, v @ CHR ''!'' # exp_str x)"
    "next_field (v @ CHR ''!'' # exp_str x) = (Some v, exp_str x)" "next_field (exp_str x) = (Some (exp_str x), [])"
    using next_field_cut f next_field_end [of "exp_str x"] exp_str_chars by (auto simp: kv_str_def)
  have ins: "hash_insert k v None s = Some (DB_ERR_OK, None, s1)" using s1(1) answer_silent [OF sil1] by simp
  show ?thesis
  proof (cases "x = LONG_MAX")
    case True
    then have e: "exp_str x = ''-1''" by (simp add: exp_str_minus)
    have "process_kv (kv_str k v x) s = Some s1"
      unfolding process_kv_def using ins by (simp add: flds [unfolded e])
    then show ?thesis using ld1 sil1 True by (simp add: gone_def reload_def)
  next
    case False
    have e: "exp_str x \<noteq> ''-1''" using False by (simp add: exp_str_minus)
    have at: "atol (exp_str x) = reload x" by (rule atol_exp_str [OF False x])
    have t: "time_NULL s1 = (clk (ticks (sys s1)), tick s1)"
      using ld1 by (simp add: time_NULL_def time_now_def loading_def)
    have gone: "reload x \<le> clk (ticks (sys s1)) \<longleftrightarrow> gone now x" using now [of "ticks (sys s1)"] False by (simp add: gone_def)
    let ?s2 = "tick s1"
    have inv2: "db_inv ?s2" and abs2: "abs_kv ?s2 = m(k \<mapsto> (v, -1))" and ld2: "loading clk b (m(k \<mapsto> (v, -1))) ?s2"
      using s1(2,5) ld1 by simp_all
    have sil2: "SILENT ?s2" using sil1 by simp
    show ?thesis
    proof (cases "gone now x")
      case True
      obtain s3 where s3: "hash_delete k None ?s2 = Some (answer None DB_ERR_OK ''OK'' s3)" "db_inv s3"
        "abs_kv s3 = (m(k \<mapsto> (v, -1)))(k := None)" "core_only ?s2 s3" "heap_set (ttl s3) \<subseteq> heap_set (ttl ?s2)"
        using hash_delete_ok [OF inv2, of k None] abs2 by auto
      have sil3: "SILENT s3" using s3(4) sil2 by (simp add: core_only_def)
      then have "process_kv (kv_str k v x) s = Some s3"
        unfolding process_kv_def flds
        using ins e at t True gone s3(1) by (simp add: flds answer_silent)
      moreover have "(m(k \<mapsto> (v, -1)))(k := None) = m" using new by auto
      ultimately show ?thesis using loading_core [OF ld2 s3(4,2,5)] s3(3) True sil3 by auto
    next
      case False
      have "live_at (time_now ?s2) (abs_kv ?s2 k)" using abs2 by simp
      then obtain a y where a: "hash_get_kv k ?s2 = Some (Some a, tick ?s2)" "ents (mem ?s2) a = Some y" "e_key y = k"
        "abs_kv ?s2 k = Some (e_value y, e_expiry y)"
        using find_live_ok [OF inv2, of k] hash_get_kv_find_live [OF inv2, of k] by auto
      let ?s4 = "put_ent (tick ?s2) a (y\<lparr>e_expiry := reload x\<rparr>)"
      have y: "ents (mem (tick ?s2)) a = Some y" using a(2) by simp
      have ti: "ttl_inv (ttl ?s2) (mem ?s2)" using inv2 by (simp add: db_inv_def)
      have "e_heap_index y = SIZE_MAX" using heap_index_iff [OF ti a(2)] ld2 by (auto simp: loading_def)
      moreover have "LONG_MIN \<le> reload x" "reload x \<le> LONG_MAX"
        using x by (auto simp: reload_def LONG_MIN_def LONG_MAX_def)
      ultimately have keeps: "db_inv ?s4" "abs_kv ?s4 = (m(k \<mapsto> (v, -1)))(k \<mapsto> (v, reload x))"
        using put_expiry_keeps [of "tick ?s2" a y "reload x"] inv2 y abs2 a(3,4) by simp_all
      have "core_only (tick ?s2) ?s4" by (simp add: core_only_def put_ent_def)
      then have "loading clk b (m(k \<mapsto> (v, reload x))) ?s4"
        using loading_core [of clk b "m(k \<mapsto> (v, -1))" "tick ?s2" ?s4] ld2 keeps by (simp add: put_ent_def)
      moreover have "process_kv (kv_str k v x) s = Some ?s4"
        unfolding process_kv_def flds
        using ins e at t False gone a(1) y by (simp add: flds)
      moreover have "SILENT ?s4" using sil2 by (simp add: put_ent_def)
      ultimately show ?thesis using False by auto
    qed
  qed
qed

section \<open>A bucket, and the file\<close>

lemma ent_str_parts: "ents (mem s) a = Some e \<Longrightarrow> ent_str (ents (mem s)) a = kv_str (e_key e) (e_value e) (e_expiry e)"
  by (simp add: ent_str_def)

lemma kv_str_chars: "field_ok k \<Longrightarrow> field_ok v \<Longrightarrow> c \<in> set (kv_str k v x) \<Longrightarrow> \<not> is_bar c \<and> c \<noteq> LF \<and> c \<noteq> NUL"
  using exp_str_chars [of c x] by (auto simp: kv_str_def field_ok_def is_bar_def)

text \<open>\<open>M\<close> is the map that was saved, \<open>K\<close> the keys of it that were read so far.\<close>

definition read_so_far :: "(nat \<Rightarrow> int) \<Rightarrow> bool \<Rightarrow> int \<Rightarrow> kvmap \<Rightarrow> string set \<Rightarrow> db \<Rightarrow> bool" where
  "read_so_far clk b now M K s \<longleftrightarrow> loading clk b (restored now M |` K) s"

definition loadable :: "(nat \<Rightarrow> int) \<Rightarrow> int \<Rightarrow> kvmap \<Rightarrow> bool" where
  "loadable clk now M \<longleftrightarrow> finite (dom M) \<and> card (dom M) + 1 < 9223372036854775807 \<and>
     (\<forall>k v x. M k = Some (v, x) \<longrightarrow> field_ok k \<and> field_ok v \<and> length v < MAX_RESP_LEN \<and>
        (x = -1 \<or> 0 \<le> x) \<and> x \<le> LONG_MAX \<and> (\<forall>n. gone (clk n) x = gone now x))"

lemma load_one:
  assumes rd: "read_so_far clk b now M K s" and silent: "SILENT s" and ok: "loadable clk now M"
    and k: "M k = Some (v, x)" "k \<notin> K" "K \<subseteq> dom M"
  shows "\<exists>s'. process_kv (kv_str k v x) s = Some s' \<and> read_so_far clk b now M (insert k K) s' \<and> SILENT s'"
proof -
  let ?m = "restored now M |` K"
  have fin: "finite (dom M)" using ok by (simp add: loadable_def)
  have "dom ?m \<subseteq> dom M - {k}" using k(2,3) by (auto simp: restrict_map_def split: if_splits)
  then have "card (dom ?m) \<le> card (dom M - {k})" using fin by (intro card_mono) auto
  also have "Suc (card (dom M - {k})) = card (dom M)" using fin k(1) by (intro card_Suc_Diff1) auto
  finally have room: "card (dom ?m) + 2 < 9223372036854775807" using ok by (simp add: loadable_def)
  have new: "?m k = None" using k(2) by simp
  have e: "field_ok k" "field_ok v" "length v < MAX_RESP_LEN" "x = -1 \<or> 0 \<le> x" "x \<le> LONG_MAX"
    "\<And>n. gone (clk n) x = gone now x" using ok k(1) by (auto simp: loadable_def)
  obtain s' where s': "process_kv (kv_str k v x) s = Some s'"
    "loading clk b (if gone now x then ?m else ?m(k \<mapsto> (v, reload x))) s'" "SILENT s'"
    using process_kv_ok [OF rd [unfolded read_so_far_def] silent new room e] by blast
  have "(if gone now x then ?m else ?m(k \<mapsto> (v, reload x))) = restored now M |` insert k K"
    using k by (intro ext) (simp add: restrict_map_def restored_def)
  then show ?thesis using s' by (auto simp: read_so_far_def)
qed

text \<open>The strings of the entries at the addresses \<open>as\<close> of the saved database \<open>s0\<close>.\<close>

lemma load_list:
  assumes "read_so_far clk b now M K s" "SILENT s" "loadable clk now M" "K \<subseteq> dom M"
    and "\<And>a. a \<in> set as \<Longrightarrow> \<exists>e. st a = Some e \<and> M (e_key e) = Some (e_value e, e_expiry e) \<and> e_key e \<notin> K"
    and "distinct (map (key_of st) as)"
  shows "\<exists>s'. load_all (map (ent_str st) as) s = Some s' \<and>
    read_so_far clk b now M (K \<union> key_of st ` set as) s' \<and> SILENT s'"
  using assms
proof (induction as arbitrary: s K)
  case Nil
  then show ?case by simp
next
  case (Cons a as)
  obtain e where e: "st a = Some e" "M (e_key e) = Some (e_value e, e_expiry e)" "e_key e \<notin> K"
    using Cons.prems(5) [of a] by auto
  have str: "ent_str st a = kv_str (e_key e) (e_value e) (e_expiry e)" by (simp add: ent_str_def e)
  obtain s1 where s1: "process_kv (kv_str (e_key e) (e_value e) (e_expiry e)) s = Some s1"
    "read_so_far clk b now M (insert (e_key e) K) s1" "SILENT s1"
    using load_one [OF Cons.prems(1,2,3) e(2,3) Cons.prems(4)] by blast
  have "\<exists>s'. load_all (map (ent_str st) as) s1 = Some s' \<and>
      read_so_far clk b now M (insert (e_key e) K \<union> key_of st ` set as) s' \<and> SILENT s'"
  proof (rule Cons.IH [OF s1(2,3) Cons.prems(3)])
    show "insert (e_key e) K \<subseteq> dom M" using Cons.prems(4) e(2) by auto
    show "\<exists>f. st c = Some f \<and> M (e_key f) = Some (e_value f, e_expiry f) \<and> e_key f \<notin> insert (e_key e) K"
      if c: "c \<in> set as" for c
    proof -
      obtain f where f: "st c = Some f" "M (e_key f) = Some (e_value f, e_expiry f)" "e_key f \<notin> K"
        using Cons.prems(5) [of c] c by auto
      have "key_of st c \<noteq> key_of st a" using Cons.prems(6) c by (auto simp: image_iff)
      then show ?thesis using f e(1) by auto
    qed
    show "distinct (map (key_of st) as)" using Cons.prems(6) by simp
  qed
  then show ?case using s1(1) str e(1) by (auto simp: insert_commute Un_insert_right)
qed

lemma dollar_line: "line_ok ''$''" by (simp add: line_ok_def)

lemma toggle_line:
  "rebuild_lines (''$'' @ LF # rest) s =
    rebuild_lines rest (s\<lparr>process_save := \<not> process_save s, SILENT := False\<rparr>)"
  using rebuild_line [OF dollar_line, of rest s] by (simp add: process_save_data_def)

lemma data_line:
  assumes "line_ok (butlast (list_str xs))" "xs \<noteq> []" "process_save s"
    and "\<forall>x\<in>set xs. CHR ''!'' \<in> set x \<and> (\<forall>c\<in>set x. \<not> is_bar c)"
    and "load_all xs (s\<lparr>SILENT := True\<rparr>) = Some s1"
  shows "rebuild_lines (butlast (list_str xs) @ LF # rest) s = rebuild_lines rest (s1\<lparr>SILENT := False\<rparr>)"
proof -
  obtain y ys where xs: "xs = y # ys" using assms(2) by (cases xs) auto
  then have "butlast (list_str xs) = y @ (if list_str ys = [] then [] else CHR ''|'' # butlast (list_str ys))"
    by (simp add: butlast_append)
  moreover have "CHR ''!'' \<in> set y" using assms(4) xs by simp
  ultimately have "CHR ''!'' \<in> set (butlast (list_str xs))" by simp
  then have "butlast (list_str xs) \<noteq> ''$''" by auto
  moreover have "process_kvs (butlast (list_str xs)) (s\<lparr>SILENT := True\<rparr>) = load_all xs (s\<lparr>SILENT := True\<rparr>)"
    using assms(4) by (intro process_kvs_list) fastforce
  ultimately have "process_save_data (butlast (list_str xs)) (s\<lparr>SILENT := True\<rparr>) = Some s1"
    using assms(3,5) by (simp add: process_save_data_def)
  then show ?thesis using rebuild_line [OF assms(1)] by simp
qed

text \<open>Reading the block of one bucket.\<close>

lemma load_block:
  assumes rd: "read_so_far clk False now M K s" and ok: "loadable clk now M" and K: "K \<subseteq> dom M"
    and es: "\<And>a. a \<in> set as \<Longrightarrow> \<exists>e. st a = Some e \<and> M (e_key e) = Some (e_value e, e_expiry e) \<and> e_key e \<notin> K"
    and dist: "distinct (map (key_of st) as)"
    and short: "length (list_str (map (ent_str st) as)) < MAX_RESP_LEN"
  shows "\<exists>s'. rebuild_lines (block (map (ent_str st) as) @ rest) s = rebuild_lines rest s' \<and>
    read_so_far clk False now M (K \<union> key_of st ` set as) s'"
proof (cases "as = []")
  case True
  then show ?thesis using rd by (intro exI [of _ s]) (simp add: block_def)
next
  case False
  let ?xs = "map (ent_str st) as"
  have chars: "CHR ''!'' \<in> set x \<and> (\<forall>c\<in>set x. \<not> is_bar c \<and> c \<noteq> LF \<and> c \<noteq> NUL)" if x: "x \<in> set ?xs" for x
  proof -
    obtain a where a0: "a \<in> set as" "x = ent_str st a" using x by auto
    from es [OF a0(1)] obtain e where a: "x = ent_str st a" "st a = Some e" "M (e_key e) = Some (e_value e, e_expiry e)"
      using a0(2) by blast
    then have f: "field_ok (e_key e)" "field_ok (e_value e)" using ok by (auto simp: loadable_def)
    have "x = kv_str (e_key e) (e_value e) (e_expiry e)" using a by (simp add: ent_str_def)
    moreover from this have "CHR ''!'' \<in> set x" by (simp add: kv_str_def)
    ultimately show ?thesis using kv_str_chars [OF f] by blast
  qed
  have "c \<noteq> LF \<and> c \<noteq> NUL" if c: "c \<in> set (list_str ?xs)" for c
  proof -
    from c have "(\<exists>x\<in>set ?xs. c \<in> set x) \<or> c = CHR ''|''" by (induction as) auto
    then show ?thesis using chars by auto
  qed
  then have "\<forall>c\<in>set (butlast (list_str ?xs)). c \<noteq> LF \<and> c \<noteq> NUL" using in_set_butlastD by fast
  moreover have "list_str ?xs \<noteq> []" using False by (cases as) auto
  ultimately have line: "line_ok (butlast (list_str ?xs))"
    using short by (cases "length (list_str ?xs)") (auto simp: line_ok_def)
  have ps: "process_save s = False" using rd by (simp add: read_so_far_def loading_def)
  let ?s1 = "s\<lparr>process_save := True, SILENT := False\<rparr>"
  have rd1: "read_so_far clk True now M K (?s1\<lparr>SILENT := True\<rparr>)"
    using rd ps by (simp add: read_so_far_def)
  obtain s2 where s2: "load_all ?xs (?s1\<lparr>SILENT := True\<rparr>) = Some s2"
    "read_so_far clk True now M (K \<union> key_of st ` set as) s2"
    using load_list [OF rd1 _ ok K es dist] by auto
  have ps2: "process_save s2 = True" using s2(2) by (simp add: read_so_far_def loading_def)
  let ?s3 = "s2\<lparr>SILENT := False, process_save := False, SILENT := False\<rparr>"
  let ?line = "butlast (list_str ?xs)"
  have b: "block ?xs @ rest = ''$'' @ LF # ?line @ LF # ''$'' @ LF # rest"
    using False by (simp add: block_def)
  have s1: "s\<lparr>process_save := \<not> process_save s, SILENT := False\<rparr> = ?s1" using ps by simp
  have s3: "(s2\<lparr>SILENT := False\<rparr>)\<lparr>process_save := \<not> process_save (s2\<lparr>SILENT := False\<rparr>), SILENT := False\<rparr> = ?s3"
    using ps2 by simp
  have "rebuild_lines (''$'' @ LF # ?line @ LF # ''$'' @ LF # rest) s = rebuild_lines (?line @ LF # ''$'' @ LF # rest) ?s1"
    by (rule toggle_line [of _ s, unfolded s1])
  moreover have "rebuild_lines (?line @ LF # ''$'' @ LF # rest) ?s1 = rebuild_lines (''$'' @ LF # rest) (s2\<lparr>SILENT := False\<rparr>)"
    by (rule data_line [OF line _ _ _ s2(1)]) (use False chars in auto)
  moreover have "rebuild_lines (''$'' @ LF # rest) (s2\<lparr>SILENT := False\<rparr>) = rebuild_lines rest ?s3"
    by (rule toggle_line [of _ "s2\<lparr>SILENT := False\<rparr>", unfolded s3])
  ultimately have "rebuild_lines (block ?xs @ rest) s = rebuild_lines rest ?s3" unfolding b by (simp only:)
  moreover have "read_so_far clk False now M (K \<union> key_of st ` set as) ?s3"
    using s2(2) ps2 by (simp add: read_so_far_def)
  ultimately show ?thesis by blast
qed

lemma load_blocks:
  assumes "read_so_far clk False now M (\<Union>i\<in>set done. {k \<in> dom M. string_folding_hash k = i}) s"
    and "loadable clk now M" "db_inv s0" "abs_kv s0 = M" "\<forall>i<MOD. bucket_bytes M i < MAX_RESP_LEN"
    and "distinct (done @ todo)" "\<forall>i\<in>set todo. i < MOD"
  shows "\<exists>s'. rebuild_lines (concat (map (\<lambda>i. block (bucket_strs s0 (bucket_addrs s0 i))) todo)) s = Some s' \<and>
    read_so_far clk False now M (\<Union>i\<in>set (done @ todo). {k \<in> dom M. string_folding_hash k = i}) s'"
  using assms
proof (induction todo arbitrary: s "done")
  case Nil
  then show ?case by (simp add: rebuild_lines.simps)
next
  case (Cons i todo)
  let ?K = "\<lambda>xs. \<Union>i\<in>set xs. {k \<in> dom M. string_folding_hash k = i}" and ?as = "bucket_addrs s0 i" and ?st = "ents (mem s0)"
  have i: "i < MOD" "i \<notin> set done" using Cons.prems(6,7) by auto
  have l: "bucket_list ?st i (buckets (ht s0) ! i) ?as" by (rule bucket_addrs [OF Cons.prems(3) i(1)])
  have keys: "key_of ?st ` set ?as = {k \<in> dom M. string_folding_hash k = i}"
    using bucket_keys [OF Cons.prems(3) l] Cons.prems(4) by simp
  have es: "\<exists>e. ?st a = Some e \<and> M (e_key e) = Some (e_value e, e_expiry e) \<and> e_key e \<notin> ?K done" if a: "a \<in> set ?as" for a
  proof -
    obtain e where e: "?st a = Some e" "string_folding_hash (e_key e) = i"
      using l a by (auto simp: bucket_list_def in_bucket_def)
    then show ?thesis using abs_kv_hit [OF Cons.prems(3) e(1) refl] Cons.prems(4) i(2) by auto
  qed
  have dist: "distinct (map (key_of ?st) ?as)" using l by (simp add: bucket_list_def)
  have short: "length (list_str (map (ent_str ?st) ?as)) < MAX_RESP_LEN"
    using bucket_line_length [OF Cons.prems(3) l] Cons.prems(4,5) i(1) by simp
  have sub: "?K done \<subseteq> dom M" by auto
  obtain s1 where s1: "rebuild_lines (block (map (ent_str ?st) ?as) @ concat (map (\<lambda>i. block (bucket_strs s0 (bucket_addrs s0 i))) todo)) s =
      rebuild_lines (concat (map (\<lambda>i. block (bucket_strs s0 (bucket_addrs s0 i))) todo)) s1"
    "read_so_far clk False now M (?K done \<union> key_of ?st ` set ?as) s1"
    using load_block [OF Cons.prems(1,2) sub es dist short] by blast
  have "?K done \<union> key_of ?st ` set ?as = ?K (done @ [i])" unfolding keys by auto
  then have "read_so_far clk False now M (?K (done @ [i])) s1" using s1(2) by simp
  from Cons.IH [OF this Cons.prems(2-5)] Cons.prems(6,7) obtain s2 where
    "rebuild_lines (concat (map (\<lambda>i. block (bucket_strs s0 (bucket_addrs s0 i))) todo)) s1 = Some s2"
    "read_so_far clk False now M (?K ((done @ [i]) @ todo)) s2" by auto
  then show ?case using s1(1) by (auto simp: bucket_strs_def)
qed

lemma header_line: "process_save s = False \<Longrightarrow>
  rebuild_lines (FILE_HEADER_VER @ LF # rest) s = rebuild_lines rest (s\<lparr>SILENT := False\<rparr>)"
proof -
  assume "process_save s = False"
  moreover have "line_ok FILE_HEADER_VER" by (simp add: line_ok_def FILE_HEADER_VER_def)
  ultimately show ?thesis
    using rebuild_line [of FILE_HEADER_VER rest s] by (simp add: process_save_data_def FILE_HEADER_VER_def)
qed

lemma all_buckets: "(\<Union>i\<in>set [0..<MOD]. {k \<in> dom M. string_folding_hash k = i}) = dom M"
  by auto

lemma restored_dom: "restored now M |` dom M = restored now M"
  by (rule ext) (auto simp: restrict_map_def restored_def split: option.splits)

lemma rebuild_saved:
  assumes inv: "db_inv s" and sv: "savable (slack s) (abs_kv s)"
    and x: "\<And>k v x. abs_kv s k = Some (v, x) \<Longrightarrow> (x = -1 \<or> 0 \<le> x) \<and> (\<forall>n. gone (clk n) x = gone now x)"
    and ld: "loading clk False (\<lambda>_. None) t"
    and fl: "savefile (host_config t) = Path p" "files (sys t) p = Some (file_text s)"
  shows "\<exists>t1. rebuild_from_savefile t = Some (DB_ERR_OK, send_info_to_user ''FILE READ!'' t1) \<and>
    loading clk False (restored now (abs_kv s)) t1"
proof -
  let ?M = "abs_kv s" and ?t = "t\<lparr>SILENT := False\<rparr>"
  have "card (dom ?M) + 1 < 9223372036854775807" using sv by (simp add: savable_def)
  moreover have "length v < MAX_RESP_LEN \<and> x \<le> LONG_MAX" if k: "?M k = Some (v, x)" for k v x
  proof -
    obtain a e where "ents (mem s) a = Some e" "e_value e = v" "e_expiry e = x"
      using abs_kv_Some [OF inv k] by metis
    then show ?thesis using inv by (auto simp: db_inv_def store_ok_def entry_ok_def)
  qed
  moreover have "finite (dom ?M)"
    using bucket_keys [OF inv bucket_addrs [OF inv]] all_buckets [of ?M] by (metis (no_types, lifting) List.finite_set atLeastLessThan_iff finite_UN set_upt)
  ultimately have ok: "loadable clk now ?M" using sv x by (auto simp: loadable_def savable_def)
  have e: "restored now ?M |` {} = (\<lambda>_. None)" by (rule ext) simp
  have rd: "read_so_far clk False now ?M {} ?t" using ld by (simp add: read_so_far_def e)
  have sb: "\<forall>i<MOD. bucket_bytes ?M i < MAX_RESP_LEN" using sv by (simp add: savable_def)
  obtain t1 where t1: "rebuild_lines (concat (map (\<lambda>i. block (bucket_strs s (bucket_addrs s i))) [0..<MOD])) ?t = Some t1"
    "read_so_far clk False now ?M (\<Union>i\<in>set [0..<MOD]. {k \<in> dom ?M. string_folding_hash k = i}) t1"
    using load_blocks [of clk now ?M "[]" ?t s "[0..<MOD]"] rd ok inv sb by auto
  have "process_save t = False" using ld by (simp add: loading_def)
  then have "rebuild_lines (file_text s) t = Some t1"
    using t1(1) header_line [of t] by (simp add: file_text_def)
  then have "rebuild_from_savefile t = Some (DB_ERR_OK, send_info_to_user ''FILE READ!'' t1)"
    using fl by (simp add: rebuild_from_savefile_def)
  moreover have "loading clk False (restored now ?M) t1"
    using t1(2) unfolding all_buckets read_so_far_def restored_dom .
  ultimately show ?thesis by blast
qed

end
