(* ===== verification/Session_Proof.thy ===== *)
theory Session_Proof
  imports Demo Server_Proof Load_Proof
begin

text \<open>
  Short sessions: what a client that sets a key and asks for it is told, repeated reads of
  a socket, and what stops a save.
\<close>

section \<open>Set and get\<close>

lemma spec_set: "spec_request clk [''SET'', k, v] st = sp_set k v st"
  by (simp add: spec_request_def demo_case)

lemma case_get: "\<not> strcaseeq ''HELP'' ''GET''" "\<not> strcaseeq ''SET'' ''GET''" "\<not> strcaseeq ''EXISTS'' ''GET''"
  "\<not> strcaseeq ''EXPIRE'' ''GET''" "\<not> strcaseeq ''SAVE'' ''GET''"
  by code_simp+

lemma spec_get: "spec_request clk [''GET'', k] st = sp_get clk k st"
  by (simp add: spec_request_def case_get)

lemma words_set_get:
  assumes "plain_word k" "plain_word v"
  shows "tokenize (line_of [''SET'', k, v]) = [''SET'', k, v]" "tokenize (line_of [''GET'', k]) = [''GET'', k]"
proof -
  have "plain_word ''SET''" "plain_word ''GET''" by (simp_all add: plain_word_def is_blank_def)
  then show "tokenize (line_of [''SET'', k, v]) = [''SET'', k, v]" "tokenize (line_of [''GET'', k]) = [''GET'', k]"
    using assms by (intro tokenize_line; simp)+
qed

lemma set_get_session:
  assumes "db_inv s" "mem_ok s" "plain_word k" "plain_word v" "length k + length v < 8000"
    and "abs_kv s k \<noteq> None \<or> \<not> sp_full (abs_kv s)"
  shows "\<exists>s'. run_steps (served conn) [line_of [''SET'', k, v], line_of [''GET'', k]] s =
      Some ([(DB_ERR_OK, ''OK''),
             if live_at (time_now s) (Some (v, kept_expiry (abs_kv s k))) then (DB_ERR_OK, v)
             else (DB_ERR_KEY_NOTEXIST, ''ERR'')], s') \<and> db_inv s' \<and>
    abs_kv s' = (if live_at (time_now s) (Some (v, kept_expiry (abs_kv s k)))
                 then (abs_kv s)(k \<mapsto> (v, kept_expiry (abs_kv s k))) else (abs_kv s)(k := None))"
proof -
  let ?q = "[line_of [''SET'', k, v], line_of [''GET'', k]]"
  note w = words_set_get [OF assms(3,4)]
  have v: "v \<noteq> []" using assms(4) by (simp add: plain_word_def)
  have "length (line_of [''SET'', k, v]) < MAX_RESP_LEN" "length (line_of [''GET'', k]) < MAX_RESP_LEN"
    using assms(5) by simp_all
  then have ok: "all_ok (server_ok (server_env s)) (server_spec (server_env s)) ?q (spec_of s)"
    using assms(2) w by (simp add: server_ok_def server_env_def request_ok_def demo_case case_get)
  have t: "spec_clock s (ticks (sys s)) = time_now s" by (simp add: spec_clock_def time_now_def)
  have "run_spec (server_spec (server_env s)) ?q (spec_of s) =
      ([(DB_ERR_OK, ''OK''),
        if live_at (time_now s) (Some (v, kept_expiry (abs_kv s k))) then (DB_ERR_OK, v)
        else (DB_ERR_KEY_NOTEXIST, ''ERR'')],
       (if live_at (time_now s) (Some (v, kept_expiry (abs_kv s k)))
        then (abs_kv s)(k \<mapsto> (v, kept_expiry (abs_kv s k))) else (abs_kv s)(k := None)), Suc (ticks (sys s)))"
    using w assms(6) v t
    by (auto simp: server_spec_def server_env_def spec_set spec_get sp_set_def sp_get_def sp_visit_def spec_of_def told_def)
  then show ?thesis
    using server.run_refines [of s ?q conn] assms(1) ok by (auto simp: spec_of_def)
qed

section \<open>Interrupted reads\<close>

lemma socket_read_retries:
  assumes "\<forall>j<k. recv_res (sys s) (n_recv (sys s) + j) = Interrupted"
  shows "socket_read_data sock buf n s =
    socket_read_data sock buf n (s\<lparr>sys := (sys s)\<lparr>n_recv := n_recv (sys s) + k\<rparr>\<rparr>)"
  using assms
proof (induction k)
  case (Suc k)
  let ?t = "s\<lparr>sys := (sys s)\<lparr>n_recv := n_recv (sys s) + k\<rparr>\<rparr>"
  have "recv_next ?t = (Interrupted, s\<lparr>sys := (sys s)\<lparr>n_recv := n_recv (sys s) + Suc k\<rparr>\<rparr>)"
    using Suc.prems by (simp add: recv_next_def)
  then have "socket_read_data sock buf n ?t =
      socket_read_data sock buf n (s\<lparr>sys := (sys s)\<lparr>n_recv := n_recv (sys s) + Suc k\<rparr>\<rparr>)"
    by (subst socket_read_data.simps) simp
  then show ?case using Suc by simp
qed simp

lemma socket_read_line:
  assumes "\<forall>j<k. recv_res (sys s) (n_recv (sys s) + j) = Interrupted"
    and "recv_res (sys s) (n_recv (sys s) + k) = Received t" "t \<noteq> []" "0 < n"
  shows "socket_read_data sock buf n s =
    Some (DB_ERR_OK, first_line (take n t), s\<lparr>sys := (sys s)\<lparr>n_recv := Suc (n_recv (sys s) + k)\<rparr>\<rparr>)"
  unfolding socket_read_retries [OF assms(1)]
  using assms(2-4) by (subst socket_read_data.simps) (simp add: recv_next_def)

text \<open>What is delivered: the received bytes up to the end of the line or of the buffer.\<close>

lemma first_line_cut:
  "first_line (take n t) = take (length (first_line (take n t))) t \<and> length (first_line (take n t)) \<le> n \<and>
    LF \<notin> set (first_line (take n t)) \<and> NUL \<notin> set (first_line (take n t)) \<and>
    (length (first_line (take n t)) = min n (length t) \<or> t ! length (first_line (take n t)) = LF \<or>
      t ! length (first_line (take n t)) = NUL)"
proof -
  let ?P = "\<lambda>c. c \<noteq> LF \<and> c \<noteq> NUL" and ?l = "first_line (take n t)"
  have len: "length ?l \<le> min n (length t)" using length_takeWhile_le [of ?P "take n t"] by (simp add: first_line_def)
  have "?l = take (length ?l) (take n t)" unfolding first_line_def by (rule takeWhile_eq_take)
  then have "?l = take (length ?l) t" using len by simp
  moreover have "t ! length ?l = LF \<or> t ! length ?l = NUL" if "length ?l \<noteq> min n (length t)"
  proof -
    have "length ?l < min n (length t)" using le_neq_implies_less [OF len that] .
    then have lt: "length (takeWhile ?P (take n t)) < length (take n t)" by (simp add: first_line_def min.commute)
    from nth_length_takeWhile [OF lt] show ?thesis using lt by (auto simp: first_line_def)
  qed
  ultimately show ?thesis using len first_line_props [of _ "take n t"] by auto
qed

section \<open>What stops a save\<close>

text \<open>A save that returns printed the expiry of every entry into its buffer.\<close>

lemma kv_loop_printed:
  "kv_loop st sl cap p data = Some d \<Longrightarrow> seg st p as None \<Longrightarrow> a \<in> set as \<Longrightarrow>
    \<exists>x. st a = Some x \<and> expiry_text sl (e_expiry x) \<noteq> None"
proof (induction as arbitrary: p data)
  case (Cons b as)
  then show ?case by (subst (asm) kv_loop.simps) (auto simp: bind_Some_iff split: option.splits if_splits)
qed simp

lemma get_kv_printed:
  assumes "get_kv_from_bucket p s = Some (d, s')" "mem_ok s" "seg (ents (mem s)) p as None" "a \<in> set as"
  shows "\<exists>x. ents (mem s) a = Some x \<and> expiry_text (slack s) (e_expiry x) \<noteq> None"
proof (cases p)
  case None
  then show ?thesis using assms(3,4) by (cases as) auto
next
  case (Some b)
  obtain ok s1 where m: "malloc_ok s = (ok, s1)" by fastforce
  note k = malloc_ok_keeps [OF m]
  have "slack s1 = slack s" using k(6) by (simp add: core_only_def)
  moreover have ok using k(1) assms(2) by (simp add: mem_ok_def)
  ultimately obtain dd where "kv_loop (ents (mem s)) (slack s) (unat (KV_LEN * (ht_count (ht s1) + 1))) p [] = Some dd"
    using assms(1) Some m k by (auto simp: get_kv_from_bucket_def bind_Some_iff)
  from kv_loop_printed [OF this assms(3,4)] show ?thesis .
qed

lemma get_kv_alloc:
  assumes "get_kv_from_bucket p s = Some (d, s')"
  shows "alloc_only s s'"
proof (cases p)
  case None
  then show ?thesis using assms by (simp add: get_kv_from_bucket_def)
next
  case (Some b)
  then have "s' = snd (malloc_ok s)"
    using assms by (auto simp: get_kv_from_bucket_def bind_Some_iff split: prod.splits if_splits)
  then have "s' = s\<lparr>mem := (mem s)\<lparr>allocs := Suc (allocs (mem s))\<rparr>\<rparr>" by (simp add: malloc_ok_def alloc_def)
  then show ?thesis unfolding alloc_only_def by blast
qed

lemma save_buckets_printed:
  assumes "save_buckets is buf s = Some y" "mem_ok s" "i \<in> set is" "bucket_at s i = Some p" "seg (ents (mem s)) p as None" "a \<in> set as"
  shows "\<exists>x. ents (mem s) a = Some x \<and> expiry_text (slack s) (e_expiry x) \<noteq> None"
  using assms
proof (induction "is" arbitrary: s buf)
  case (Cons j "is")
  obtain q d s1 buf' where s1: "bucket_at s j = Some q" "get_kv_from_bucket q s = Some (d, s1)" "save_buckets is buf' s1 = Some y"
    using Cons.prems(1) by (auto simp: bind_Some_iff)
  note al = alloc_onlyD [OF get_kv_alloc [OF s1(2)]]
  show ?case
  proof (cases "i = j")
    case True
    then show ?thesis using get_kv_printed [OF s1(2)] Cons.prems s1(1) by auto
  next
    case False
    have "bucket_at s1 i = bucket_at s i" using al by (simp add: bucket_at_def)
    have "mem_ok s1" using al(9) Cons.prems(2) by (simp add: mem_ok_def)
    moreover have "i \<in> set is" using Cons.prems(3) False by simp
    ultimately show ?thesis
      using Cons.IH [OF s1(3)] Cons.prems(4-6) \<open>bucket_at s1 i = bucket_at s i\<close> al(1,5) by simp
  qed
qed simp

lemma expiry_minus_one: "expiry_text 0 (-1) = None"
proof -
  have "(10 :: nat) ^ 19 \<le> nat (-1 mod 2 ^ 64)" by simp
  from length_dec_nat_ge [OF this] have "20 \<le> length (show_zu (-1))" by (simp add: show_zu_def)
  then show ?thesis by (simp add: expiry_text_def sprintf_to_def LONG_MAX_def)
qed

text \<open>One key without an expiry is enough: its -1 is printed with 20 digits into 20 bytes.\<close>

lemma save_overflows:
  assumes inv: "db_inv s" and mo: "mem_ok s" and sl: "slack s = 0" and k: "abs_kv s k = Some (v, -1)"
    and path: "savefile (host_config s) = Path p" "writable (sys s) p"
  shows "fetch_dataset_from_memory s = None"
proof (rule ccontr)
  assume ret: "fetch_dataset_from_memory s \<noteq> None"
  have size: "ht_size (ht s) = MOD" using inv by (simp add: db_inv_def)
  obtain y where y: "save_buckets [0..<MOD] (FILE_HEADER_VER @ [LF]) s = Some y"
  proof (cases "save_buckets [0..<MOD] (FILE_HEADER_VER @ [LF]) s")
    case None
    then have "fetch_dataset_from_memory s = None"
      unfolding fetch_dataset_from_memory_def path(1) size by (simp add: path(2))
    then show thesis using ret by simp
  qed
  obtain a e where a: "ents (mem s) a = Some e" "e_key e = k" "e_expiry e = -1"
    using abs_kv_Some [OF inv k] by metis
  let ?i = "string_folding_hash k"
  have bl: "bucket_list (ents (mem s)) ?i (buckets (ht s) ! ?i) (bucket_addrs s ?i)" by (rule bucket_addrs [OF inv]) simp
  then have "seg (ents (mem s)) (buckets (ht s) ! ?i) (bucket_addrs s ?i) None" "a \<in> set (bucket_addrs s ?i)"
    using a(1,2) unfolding bucket_list_def in_bucket_def by blast+
  moreover have "?i \<in> set [0..<MOD]" by simp
  ultimately obtain x where "ents (mem s) a = Some x" "expiry_text (slack s) (e_expiry x) \<noteq> None"
    using save_buckets_printed [OF y mo _ db_inv_bucket [OF inv, of k]] by blast
  then show False using a(1,3) sl expiry_minus_one by simp
qed

end
