(* ===== verification/Safety_Proof.thy ===== *)
theory Safety_Proof
  imports Session_Proof
begin

text \<open>
  Safety of the server whatever its clients send: every request that returns keeps the
  invariant of the database, and so does every round of the server. One value is excluded,
  an expiry that comes out as \<open>LONG_MAX\<close>.
\<close>

section \<open>Requests outside the promise\<close>

definition never_max :: "db \<Rightarrow> string list \<Rightarrow> bool" where
  "never_max s ws \<longleftrightarrow> (\<forall>w\<in>set ws. \<forall>n. spec_clock s n + atol w \<noteq> LONG_MAX)"

text \<open>What a step keeps: the invariant and the environment of requests.\<close>

definition kept :: "db \<Rightarrow> db \<Rightarrow> bool" where
  "kept s s' \<longleftrightarrow> db_inv s' \<and> same_env s s'"

lemma kept_trans: "kept s s1 \<Longrightarrow> kept s1 s2 \<Longrightarrow> kept s s2"
  using same_env_trans by (auto simp: kept_def)

lemma kept_answer: "kept s s' \<Longrightarrow> kept s (snd (snd (answer c r msg s')))"
  by (cases c) (auto simp: answer_def fill_cmd_ctx_def kept_def same_env_def spec_clock_def mem_ok_def)

lemma kept_visit: "after_access k s s' \<Longrightarrow> kept s s'"
  using after_access_visit(2,3) [of k s s'] by (simp add: kept_def)

lemma update_expiry_overflow:
  assumes inv: "db_inv s" and live: "live_at (time_now s) (abs_kv s k)" and t: "long_add (time_now (tick s)) d = None"
  shows "hash_update_expiry k d ctx s = None"
proof -
  obtain a e where f: "hash_get_kv k s = Some (Some a, tick s)" "ents (mem s) a = Some e"
    using find_live_ok [OF inv, of k] hash_get_kv_find_live [OF inv, of k] live by auto
  obtain s2 where s2: "(if e_heap_index e \<noteq> SIZE_MAX
      then heap_remove (ttl (tick s)) (mem (tick s)) a \<bind> (\<lambda>(r, h', m'). Some ((tick s)\<lparr>ttl := h', mem := m'\<rparr>))
      else Some (tick s)) = Some s2" "core_only (tick s) s2"
    using leave_heap [of "tick s" a e] inv f(2) by auto
  have now: "time_NULL s2 = (time_now (tick s), tick s2)"
    using s2(2) by (simp add: time_NULL_def time_now_def core_only_def)
  show ?thesis
    using f s2(1) now t by (simp add: hash_update_expiry_def del: bind_assoc split del: if_split cong: if_cong)
qed

lemma update_expiry_keeps:
  assumes run: "hash_update_expiry k d ctx s = Some (r, c', s')" and inv: "db_inv s"
    and d: "\<And>n. spec_clock s n + d \<noteq> LONG_MAX"
  shows "kept s s'"
proof (cases "live_at (time_now s) (abs_kv s k)")
  case False
  then show ?thesis using hash_update_expiry_gone [OF inv False, of d ctx] run kept_answer [OF kept_visit] by (metis option.inject snd_conv)
next
  case True
  then obtain t where t: "long_add (time_now (tick s)) d = Some t"
    using update_expiry_overflow [OF inv True] run by (cases "long_add (time_now (tick s)) d") auto
  have "time_now (tick s) = spec_clock s (Suc (ticks (sys s)))" by (simp add: time_now_def tick_def spec_clock_def)
  then have "t \<noteq> LONG_MAX" using t d [of "Suc (ticks (sys s))"] by (auto simp: long_add_Some)
  from hash_update_expiry_ok [OF inv True t this, of ctx] run obtain s1 msg q where s1:
    "db_inv s1" "core_only (tick (tick s)) s1" "(r, c', s') = answer ctx q msg s1"
    by (auto split: if_splits)
  have "same_env s (tick (tick s))" by (rule same_env_trans [of _ "tick s"]) simp_all
  then have "kept s s1" using s1(1) same_env_trans same_env_core [OF s1(2)] unfolding kept_def by blast
  from kept_answer [OF this] s1(3) show ?thesis by (metis snd_conv)
qed

lemma expire_keeps:
  assumes run: "expire_key_val n ws ctx s = Some (r, c', s')" and inv: "db_inv s" and d: "never_max s ws"
  shows "kept s s'"
proof (cases "n = 3")
  case False
  have "kept s (send_info_to_user ''ERR'' s)" using inv by (simp add: kept_def)
  moreover have "answer ctx DB_ERR_INVALID_ARGS ''ERR'' (send_info_to_user ''ERR'' s) = (r, c', s')"
    using run False by (simp add: expire_key_val_def)
  ultimately show ?thesis using kept_answer by (metis snd_conv)
next
  case True
  let ?s = "s\<lparr>SILENT := True\<rparr>"
  obtain k w where kw: "word_at ws 1 = Some k" "word_at ws 2 = Some w"
    using run True by (auto simp: expire_key_val_def bind_Some_iff)
  have w: "w \<in> set ws" using kw(2) by (auto simp: word_at_def split: if_splits)
  obtain q msg s1 where s1: "after_access k ?s s1" "hash_exists k ctx ?s = Some (answer ctx q msg s1)"
  proof -
    have "db_inv ?s" using inv by simp
    from hash_exists_ok [OF this, of k ctx] show thesis
      using that by (cases "live_at (time_now ?s) (abs_kv ?s k)") (auto simp only: if_True if_False)
  qed
  obtain q' c1 t1 where t1: "answer ctx q msg s1 = (q', c1, t1)" by (metis prod.collapse)
  let ?s2 = "t1\<lparr>SILENT := False\<rparr>"
  have "kept ?s t1" using kept_answer [OF kept_visit [OF s1(1)], of ctx q msg] t1 by simp
  then have k2: "kept s ?s2" by (simp add: kept_def same_env_def spec_clock_def mem_ok_def)
  have s3: "(if q' = 0 then hash_update_expiry k (atol w) c1 ?s2 else Some (DB_ERR_OK, c1, ?s2)) = Some (r, c', s')"
    using run True kw s1(2) t1 by (simp add: expire_key_val_def Let_def split del: if_split)
  show ?thesis
  proof (cases "q' = 0")
    case True
    then have u: "hash_update_expiry k (atol w) c1 ?s2 = Some (r, c', s')" using s3 by simp
    have "\<And>n. spec_clock ?s2 n + atol w \<noteq> LONG_MAX" using d w k2 by (simp add: never_max_def kept_def same_env_def)
    with update_expiry_keeps [OF u] k2 have "kept ?s2 s'" by (simp add: kept_def)
    then show ?thesis using kept_trans [OF k2] by blast
  next
    case False
    then show ?thesis using s3 k2 by simp
  qed
qed

lemma save_buckets_alloc: "save_buckets is buf s = Some (t, s') \<Longrightarrow> alloc_only s s'"
proof (induction "is" arbitrary: buf s)
  case (Cons i "is")
  then obtain q d s1 buf' where s1: "get_kv_from_bucket q s = Some (d, s1)" "save_buckets is buf' s1 = Some (t, s')"
    by (auto simp: bind_Some_iff)
  show ?case using alloc_only_trans [OF get_kv_alloc [OF s1(1)] Cons.IH [OF s1(2)]] .
qed simp

lemma fetch_keeps:
  assumes run: "fetch_dataset_from_memory s = Some (r, s')" and inv: "db_inv s"
  shows "kept s s'"
proof -
  obtain p where p: "path_of (savefile (host_config s)) = Some p"
    using run by (cases "path_of (savefile (host_config s))") (simp_all add: fetch_dataset_from_memory_def)
  show ?thesis
  proof (cases "writable (sys s) p")
    case False
    then have "\<exists>d. s' = send_info_to_user d s"
      using run p unfolding fetch_dataset_from_memory_def by (clarsimp simp only: bind_Some_iff if_True option.inject prod.inject simp_thms) (rule exI, rule refl)
    then show ?thesis using inv by (auto simp: kept_def)
  next
    case True
    obtain t s1 where s1: "save_buckets [0..<ht_size (ht s)] (FILE_HEADER_VER @ [LF]) s = Some (t, s1)"
    proof (cases "save_buckets [0..<ht_size (ht s)] (FILE_HEADER_VER @ [LF]) s")
      case None
      then have "fetch_dataset_from_memory s = None"
        unfolding fetch_dataset_from_memory_def p by (simp add: True)
      then show thesis using run by simp
    qed (metis that prod.collapse)
    have "\<exists>d. s' = send_info_to_user d (write_file p t s1)"
      using run p s1 True unfolding fetch_dataset_from_memory_def
      by (clarsimp simp only: bind_Some_iff if_False option.inject prod.inject simp_thms Let_def prod.case) (rule exI, rule refl)
    then obtain d where s': "s' = send_info_to_user d (write_file p t s1)" by blast
    note al = save_buckets_alloc [OF s1]
    have "same_env s (write_file p t s1)"
      using same_env_core [OF alloc_onlyD(6) [OF al]] by (simp add: same_env_def write_file_def spec_clock_def mem_ok_def)
    moreover have "db_inv (write_file p t s1)" using alloc_only_inv(1) [OF al inv] by (simp add: write_file_def)
    ultimately show ?thesis unfolding s' kept_def using same_env_trans by auto
  qed
qed

section \<open>Any request\<close>

lemma strcaseeq_other: "strcaseeq n w \<Longrightarrow> strcaseeq m w = strcaseeq m n"
  by (simp add: strcaseeq_def)

lemma find_command_cong: "strcaseeq n w \<Longrightarrow> map_option cn_func (find_command w) = map_option cn_func (find_command n)"
  unfolding find_command_eq by (simp only: strcaseeq_other [of n w])

lemma find_special:
  "map_option cn_func (find_command ''HELP'') = Some help_helper"
  "map_option cn_func (find_command ''EXPIRE'') = Some expire_key_val"
  "map_option cn_func (find_command ''SAVE'') = Some save_helper"
proof -
  have f: "\<not> strcaseeq ''HELP'' ''EXPIRE''" "\<not> strcaseeq ''SET'' ''EXPIRE''" "\<not> strcaseeq ''EXISTS'' ''EXPIRE''"
    "\<not> strcaseeq ''GET'' ''EXPIRE''" "\<not> strcaseeq ''DELETE'' ''EXPIRE''" "\<not> strcaseeq ''HELP'' ''SAVE''"
    "\<not> strcaseeq ''SET'' ''SAVE''" "\<not> strcaseeq ''EXISTS'' ''SAVE''" "\<not> strcaseeq ''GET'' ''SAVE''"
    "\<not> strcaseeq ''DELETE'' ''SAVE''" "\<not> strcaseeq ''EXPIRE'' ''SAVE''" by code_simp+
  show "map_option cn_func (find_command ''HELP'') = Some help_helper" unfolding find_command_eq by simp
  show "map_option cn_func (find_command ''EXPIRE'') = Some expire_key_val" unfolding find_command_eq by (simp only: f strcaseeq_refl if_True if_False)
  show "map_option cn_func (find_command ''SAVE'') = Some save_helper" unfolding find_command_eq by (simp only: f strcaseeq_refl if_True if_False)
qed

lemma run_special:
  assumes "strcaseeq n (ws ! 0)" "map_option cn_func (find_command n) = Some f" "run_words ws ctx s = Some (r, c', s')"
  shows "f (length ws) ws ctx s = Some (r, c', s')"
  using assms(3) unfolding run_words_def find_command_cong [OF assms(1)] assms(2) by (auto simp: bind_Some_iff)

lemma processCommand_keeps:
  assumes run: "processCommand req (Some c) s = Some (r, c', s')" and inv: "db_inv s" "mem_ok s" and c: "blank c"
    and len: "length req < MAX_RESP_LEN" and nm: "never_max s (tokenize req)"
  shows "kept s s'"
proof (cases "request_ok (slack s) (spec_clock s) (tokenize req) (ticks (sys s))")
  case True
  then show ?thesis using processCommand_meets [OF inv c len True] run by (auto simp: meets_def kept_def)
next
  case False
  let ?ws = "tokenize req"
  obtain s1 where s1: "malloc_ok s = (True, s1)" "db_inv s1" "same_env s s1" using malloc_ok_env [OF inv] by blast
  then have k1: "kept s s1" by (simp add: kept_def)
  have ws: "?ws \<noteq> []"
  proof
    assume "?ws = []"
    then have "processCommand req (Some c) s = None" using s1(1) by (simp add: processCommand_def word_at_def)
    then show False using run by simp
  qed
  then have "?ws ! 0 \<in> set ?ws" by simp
  then have w0: "?ws ! 0 \<noteq> []" using tokens_upto_sound [of _ MAX_CMD_PARAMS req] by (auto simp: tokenize_def)
  have rw: "run_words ?ws (Some c) s1 = Some (r, c', s')" using run processCommand_run [OF s1(1) refl ws] by simp
  have "never_max s1 ?ws" using nm s1(3) by (simp add: never_max_def same_env_def)
  consider (hlp) "strcaseeq ''HELP'' (?ws ! 0)" "length ?ws = 2" | (expire) "strcaseeq ''EXPIRE'' (?ws ! 0)"
    | (save) "strcaseeq ''SAVE'' (?ws ! 0)" "length ?ws = 1"
    using False ws w0 by (auto simp: request_ok_def)
  then show ?thesis
  proof cases
    case hlp
    from run_special [OF hlp(1) find_special(1) rw] have h: "help_helper 2 ?ws (Some c) s1 = Some (r, c', s')"
      unfolding hlp(2) .
    have "s' = s1 \<or> (\<exists>d. s' = send_info_to_user d s1)"
    proof (cases "word_at ?ws 1")
      case None
      then show ?thesis using h by (simp add: help_helper_def)
    next
      case (Some w)
      then show ?thesis
      proof (cases "w = []")
        case False
        then have "printSubCommands w s1 = Some s'" using h Some by (auto simp: help_helper_def bind_Some_iff)
        then show ?thesis unfolding printSubCommands_def by (clarsimp simp only: bind_Some_iff option.inject) blast
      qed (use h in \<open>simp add: help_helper_def\<close>)
    qed
    then show ?thesis using k1 kept_trans [OF k1] s1(2) by (auto simp: kept_def)
  next
    case expire
    from run_special [OF expire find_special(2) rw] show ?thesis
      using expire_keeps [OF _ s1(2) \<open>never_max s1 ?ws\<close>] kept_trans [OF k1] by blast
  next
    case save
    from run_special [OF save(1) find_special(3) rw] have h: "save_helper 1 ?ws (Some c) s1 = Some (r, c', s')"
      unfolding save(2) .
    then obtain q s2 where q: "fetch_dataset_from_memory s1 = Some (q, s2)" "(r, c', s') = answer (Some c) q ''OK'' s2"
      by (auto simp: save_helper_def bind_Some_iff)
    from kept_answer [OF fetch_keeps [OF q(1) s1(2)], of "Some c" q "''OK''"] have "kept s1 s'" using q(2) by (metis snd_conv)
    then show ?thesis using kept_trans [OF k1] by blast
  qed
qed

lemma handle_request_keeps:
  assumes run: "handle_request (Some conn) req s = Some (r, s')" and inv: "db_inv s" "mem_ok s"
    and len: "length req < MAX_RESP_LEN" and nm: "never_max s (tokenize req)"
  shows "db_inv s' \<and> mem_ok s'"
proof -
  obtain s1 where s1: "malloc_ok s = (True, s1)" "db_inv s1" "same_env s s1" using malloc_ok_env [OF inv] by blast
  have mo1: "mem_ok s1" using inv(2) s1(3) by (simp add: same_env_def)
  obtain s2 where s2: "malloc_ok s1 = (True, s2)" "db_inv s2" "same_env s1 s2" using malloc_ok_env [OF s1(2) mo1] by blast
  have e: "same_env s s2" using same_env_trans [OF s1(3) s2(3)] .
  then have mo2: "mem_ok s2" and nm2: "never_max s2 (tokenize req)" using inv(2) nm by (simp_all add: same_env_def never_max_def)
  obtain r0 x s3 where p: "processCommand req (Some (new_ctx conn)) s2 = Some (r0, Some x, s3)"
    "s' = send_info_to_user (ctx_resp x) s3 \<or> s' = snd (socket_send_data (c_fd (ctx_conn x)) (ctx_resp x @ [LF] @ USER_PROMPT) s3)"
    using run s1(1) s2(1) by (auto simp: handle_request_def new_ctx_def bind_Some_iff Let_def split: if_splits prod.splits)
  have k: "kept s2 s3" by (rule processCommand_keeps [OF p(1) s2(2) mo2 _ len nm2]) simp
  have "data_same s3 s'" using p(2)
    by (auto simp: data_same_def socket_send_data_def send_next_def case_prod_unfold Let_def)
  from data_sameD [OF this] k mo2 show ?thesis by (auto simp: kept_def same_env_def server_env_def)
qed

section \<open>Any run of the server\<close>

text \<open>
  No line a client may send makes an expiry \<open>LONG_MAX\<close>. The state of a server that is safe, and the
  steps that do not touch what this depends on.
\<close>

definition tame :: "db \<Rightarrow> bool" where
  "tame s \<longleftrightarrow> (\<forall>n t. recv_res (sys s) n = Received t \<longrightarrow> never_max s (tokenize (first_line (take (MAX_CMD_LEN - 1) t))))"

definition sound :: "db \<Rightarrow> bool" where
  "sound s \<longleftrightarrow> db_inv s \<and> mem_ok s \<and> tame s"

definition calm :: "db \<Rightarrow> db \<Rightarrow> bool" where
  "calm s s' \<longleftrightarrow> ents (mem s') = ents (mem s) \<and> nxt (mem s') = nxt (mem s) \<and> alloc_ok (mem s') = alloc_ok (mem s) \<and>
     ht s' = ht s \<and> ttl s' = ttl s \<and> clock (sys s') = clock (sys s) \<and> recv_res (sys s') = recv_res (sys s)"

lemma calm_sound: "calm s s' \<Longrightarrow> sound s \<Longrightarrow> sound s'"
  using db_inv_ents(1) [of s s'] by (simp add: calm_def sound_def mem_ok_def tame_def never_max_def spec_clock_def)

lemma calm_refl [simp]: "calm s s"
  by (simp add: calm_def)

lemma calm_trans: "calm s s1 \<Longrightarrow> calm s1 s2 \<Longrightarrow> calm s s2"
  by (simp add: calm_def)

lemma calm_simps [simp]:
  "calm s (emit e s1) = calm s s1" "calm s (send_info_to_user d s1) = calm s s1" "calm s (set_table t s1) = calm s s1"
  "calm s (set_master m s1) = calm s s1" "calm s (snd (call_next s1)) = calm s s1" "calm s (snd (select_next s1)) = calm s s1"
  "calm s (snd (send_next fd x s1)) = calm s s1" "calm s (snd (malloc_ok s1)) = calm s s1" "calm s (snd (recv_next s1)) = calm s s1"
  by (simp_all add: calm_def emit_def set_table_def set_master_def upd_config_def call_next_def select_next_def send_next_def
      malloc_ok_def recv_next_def case_prod_unfold)

lemma set_CONN_calm: "set_CONN i c s = Some s' \<Longrightarrow> calm s s'"
  by (auto simp: set_CONN_def bind_Some_iff split: if_splits)

lemma close_conn_calm: "close_conn i s = Some s' \<Longrightarrow> calm s s'"
  using calm_trans [of s "emit (Closed _) s" s'] by (auto simp: close_conn_def bind_Some_iff dest!: set_CONN_calm)

lemma recv_cmd_calm: "calm s (snd (recv_cmd s))"
  by (simp add: recv_cmd_def case_prod_unfold Let_def split: recv_result.split)

lemma repl_handshake_calm:
  assumes "master_init_handshake_with_repl fd s = Some (r, s')"
  shows "calm s s'"
proof -
  define s1 where "s1 = snd (malloc_ok s)"
  define s2 where "s2 = snd (send_next fd REPL_INIT_JOIN s1)"
  define s3 where "s3 = snd (recv_cmd s2)"
  have c: "calm s s1" "calm s s2" "calm s s3"
    using calm_trans [of s s2 s3] recv_cmd_calm [of s2] by (simp_all add: s1_def s2_def s3_def)
  show ?thesis
    using assms c
    by (auto simp: master_init_handshake_with_repl_def case_prod_unfold Let_def bind_Some_iff
        s1_def [symmetric] s2_def [symmetric] s3_def [symmetric] split: if_splits)
qed

lemma conn_handshake_calm:
  assumes "conn_handshake i buf s = Some s'"
  shows "calm s s'"
proof -
  obtain c where c: "CONN i s = Some c" using assms by (auto simp: conn_handshake_def bind_Some_iff)
  consider "buf = USER_JOIN" | "buf \<noteq> USER_JOIN" "buf = REPL_JOIN" | "buf \<noteq> USER_JOIN" "buf \<noteq> REPL_JOIN" by blast
  then show ?thesis
  proof cases
    case 1
    then obtain s1 where "set_CONN i (c\<lparr>c_type := CONN_USER, c_state := STATE_ACTIVE\<rparr>) s = Some s1"
      "s' = snd (send_next (c_fd c) USER_PROMPT s1)"
      using assms c by (auto simp: conn_handshake_def bind_Some_iff case_prod_unfold)
    then show ?thesis using set_CONN_calm by simp
  next
    case 2
    then obtain s1 r where "set_CONN i (c\<lparr>c_type := CONN_REPL, c_state := STATE_ACTIVE\<rparr>) s = Some s1"
      "master_init_handshake_with_repl (c_fd c) s1 = Some (r, s')"
      using assms c by (auto simp: conn_handshake_def bind_Some_iff)
    then show ?thesis using set_CONN_calm repl_handshake_calm calm_trans by blast
  next
    case 3
    then have "close_conn i s = Some s'" using assms c by (simp add: conn_handshake_def)
    then show ?thesis by (rule close_conn_calm)
  qed
qed

text \<open>What a successful read puts into the buffer was received.\<close>

lemma socket_read_ok:
  assumes "socket_read_data fd buf n s = Some (r, b, s')"
  shows "r = DB_ERR_CLIENT_CLOSED \<or> r = DB_ERR_CLIENT_FATAL \<or>
    (\<exists>k t. recv_res (sys s) k = Received t \<and> b = first_line (take n t))"
proof -
  let ?P = "\<lambda>n s y. fst y = DB_ERR_CLIENT_CLOSED \<or> fst y = DB_ERR_CLIENT_FATAL \<or>
    (\<exists>k t. recv_res (sys s) k = Received t \<and> fst (snd y) = first_line (take n t))"
  have "?P n s y" if "socket_read_data fd buf n s = Some y" for y
  proof (rule socket_read_data.raw_induct [where P = "\<lambda>sock buf n s y. ?P n s y", OF _ that])
    fix f sock buf n s y
    assume IH: "\<And>sock buf n s y. f sock buf n s = Some y \<Longrightarrow> ?P n s y"
      and run: "(let (r, s1) = recv_next s
      in case r of
           Received t \<Rightarrow>
             (if take n t = [] then Some (DB_ERR_CLIENT_CLOSED, buf, s1)
              else Some (DB_ERR_OK, first_line (take n t), s1))
         | EndOfFile \<Rightarrow> Some (DB_ERR_CLIENT_CLOSED, buf, s1)
         | Interrupted \<Rightarrow> f sock buf n s1
         | ReadError \<Rightarrow> Some (DB_ERR_CLIENT_FATAL, buf, s1)) = Some y"
    show "?P n s y"
    proof (cases "recv_res (sys s) (n_recv (sys s))")
      case Interrupted
      then have "f sock buf n (snd (recv_next s)) = Some y" using run by (simp add: recv_next_def)
      from IH [OF this] show ?thesis by (simp add: recv_next_def)
    next
      case (Received t)
      then have "fst y = DB_ERR_CLIENT_CLOSED \<or> fst (snd y) = first_line (take n t)"
        using run by (auto simp: recv_next_def split: if_splits)
      then show ?thesis using Received by blast
    qed (use run in \<open>auto simp: recv_next_def\<close>)
  qed
  from this [OF assms] show ?thesis by simp
qed

lemma handle_request_sound:
  assumes run: "handle_request (Some c) req s = Some (r, s')" and s: "sound s"
    and req: "recv_res (sys s) k = Received t" "req = first_line (take (MAX_CMD_LEN - 1) t)"
  shows "sound s'"
proof -
  have "length req \<le> length (take (MAX_CMD_LEN - 1) t)" unfolding req(2) first_line_def by (rule length_takeWhile_le)
  then have "length req < MAX_RESP_LEN" by simp
  moreover have "never_max s (tokenize req)" using s req by (auto simp: sound_def tame_def)
  ultimately have k: "db_inv s' \<and> mem_ok s'" using handle_request_keeps [OF run] s by (simp add: sound_def)
  have "fixed s' = fixed s" by (rule handle_request_hc [OF run])
  then have "tame s' = tame s" by (simp add: fixed_eq tame_def never_max_def spec_clock_def)
  then show ?thesis using k s by (simp add: sound_def)
qed

lemma conn_active_sound:
  assumes run: "conn_active i buf s = Some (stop, s')" and s: "sound s"
    and buf: "recv_res (sys s) k = Received t" "buf = first_line (take (MAX_CMD_LEN - 1) t)"
  shows "sound s'"
proof -
  obtain c where c: "CONN i s = Some c" using run by (auto simp: conn_active_def bind_Some_iff)
  show ?thesis
  proof (cases "c_type c = CONN_USER \<and> c_fd c > 0")
    case False
    then have "s' = s" using run c by (auto simp: conn_active_def)
    then show ?thesis using s by simp
  next
    case True
    then obtain res s1 where s1:
      "(if buf \<noteq> [] then handle_request (Some c) buf s else Some (DB_ERR_OK, s)) = Some (res, s1)"
      "(if res = DB_ERR_EXIT then do { s2 \<leftarrow> close_conn i s1; Some (False, s2) } else Some (res = DB_ERR_SHUTDOWN, s1)) = Some (stop, s')"
      using run c by (auto simp: conn_active_def bind_Some_iff)
    have "sound s1" using s1(1) s handle_request_sound [OF _ s buf] by (auto split: if_splits)
    moreover have "calm s1 s'" using s1(2) close_conn_calm by (auto simp: bind_Some_iff split: if_splits)
    ultimately show ?thesis using calm_sound by blast
  qed
qed

lemma serve_conn_sound:
  assumes run: "serve_conn readfds i s = Some (stop, s')" and s: "sound s"
  shows "sound s'"
proof -
  obtain c where c: "CONN i s = Some c" using run by (auto simp: serve_conn_def bind_Some_iff)
  show ?thesis
  proof (cases "c_fd c = -1 \<or> c_fd c \<notin> set readfds")
    case True
    then have "s' = s" using run c by (auto simp: serve_conn_def bind_Some_iff split: if_splits)
    then show ?thesis using s by simp
  next
    case False
    define s1 where "s1 = snd (malloc_ok s)"
    let ?rest = "\<lambda>r b s2. if r = DB_ERR_CLIENT_CLOSED \<or> r = DB_ERR_CLIENT_FATAL then do { s3 \<leftarrow> close_conn i s2; Some (False, s3) }
        else if c_state c = STATE_HANDSHAKE then do { s3 \<leftarrow> conn_handshake i b s2; Some (False, s3) }
        else conn_active i b s2"
    obtain ok where m: "malloc_ok s = (ok, s1)" unfolding s1_def by (metis prod.collapse)
    have ok: "guard (fd_ok (c_fd c)) = Some ()" "ok"
      using run c False m by (cases "fd_ok (c_fd c)"; cases ok; simp add: serve_conn_def)+
    obtain r b s2 where s2: "socket_read_data (c_fd c) [] (MAX_CMD_LEN - 1) s1 = Some (r, b, s2)"
      "?rest r b s2 = Some (stop, s')"
      using run c False m ok
      by (cases "socket_read_data (c_fd c) [] (MAX_CMD_LEN - 1) s1") (auto simp: serve_conn_def)
    have c1: "calm s s1" by (simp add: s1_def)
    have c2: "calm s1 s2" using socket_read_frame [OF s2(1)] by (auto simp: calm_def)
    have sd: "sound s2" using calm_sound [OF calm_trans [OF c1 c2] s] .
    have rr: "recv_res (sys s2) = recv_res (sys s1)" using c2 by (simp add: calm_def)
    consider "r = DB_ERR_CLIENT_CLOSED \<or> r = DB_ERR_CLIENT_FATAL"
      | "\<not> (r = DB_ERR_CLIENT_CLOSED \<or> r = DB_ERR_CLIENT_FATAL)" "c_state c = STATE_HANDSHAKE"
      | "\<not> (r = DB_ERR_CLIENT_CLOSED \<or> r = DB_ERR_CLIENT_FATAL)" "c_state c \<noteq> STATE_HANDSHAKE" by blast
    then show ?thesis
    proof cases
      case 1
      then have "close_conn i s2 = Some s'" using s2(2) by (auto simp: bind_Some_iff)
      then show ?thesis using close_conn_calm calm_sound sd by blast
    next
      case 2
      then have "conn_handshake i b s2 = Some s'" using s2(2) by (auto simp: bind_Some_iff)
      then show ?thesis using conn_handshake_calm calm_sound sd by blast
    next
      case 3
      then have a: "conn_active i b s2 = Some (stop, s')" using s2(2) by simp
      obtain k t where "recv_res (sys s1) k = Received t" "b = first_line (take (MAX_CMD_LEN - 1) t)"
        using socket_read_ok [OF s2(1)] 3(1) by blast
      then show ?thesis using conn_active_sound [OF a sd] rr by simp
    qed
  qed
qed

lemma serve_conns_sound: "serve_conns readfds is s = Some (stop, s') \<Longrightarrow> sound s \<Longrightarrow> sound s'"
proof (induction "is" arbitrary: s)
  case (Cons i "is")
  then obtain b s1 where s1: "serve_conn readfds i s = Some (b, s1)"
    "(if b then Some (True, s1) else serve_conns readfds is s1) = Some (stop, s')"
    by (auto simp: bind_Some_iff)
  have "sound s1" by (rule serve_conn_sound [OF s1(1) Cons.prems(2)])
  then show ?case using s1(2) Cons.IH [of s1] by (auto split: if_splits)
qed simp

lemma accept_conn_calm: "accept_conn s = Some s' \<Longrightarrow> calm s s'"
proof -
  assume run: "accept_conn s = Some s'"
  obtain n c s1 t where s1: "set_CONN n c (snd (call_next s)) = Some s1" "s' = set_table t s1"
    using run unfolding accept_conn_def by (auto simp: case_prod_unfold bind_Some_iff Let_def)
  have "calm s (snd (call_next s))" by simp
  from calm_trans [OF this set_CONN_calm [OF s1(1)]] s1(2) show ?thesis by simp
qed

lemma server_round_sound:
  assumes run: "server_round fd s = Some (stop, s')" and s: "sound s"
  shows "sound s'"
proof -
  define s1 where "s1 = snd (select_next s)"
  have sd: "sound s1" by (rule calm_sound [OF _ s]) (simp add: s1_def)
  show ?thesis
  proof (cases "fst (fst (select_next s)) < 0")
    case True
    then have "s' = send_info_to_user ''SELECT syscall got interrupted'' s1"
      using run by (auto simp: server_round_def bind_Some_iff case_prod_unfold Let_def s1_def split: if_splits)
    then show ?thesis using calm_sound [OF _ sd, of s'] by simp
  next
    case False
    obtain r ready where sel: "select_next s = ((r, ready), s1)" unfolding s1_def by (metis prod.collapse)
    obtain n fds where n: "fd_ok fd" "NUM_CONNS s = Some n" "watch_conns [0..<nat n] s = Some fds"
      using run by (auto simp: server_round_def bind_Some_iff split: if_splits)
    let ?rd = "filter (\<lambda>fd. fd \<in> set ready) (fd # fds)"
    obtain s2 m where s2: "(if fd \<in> set ?rd then accept_conn s1 else Some s1) = Some s2"
      "serve_conns ?rd [0..<nat m] s2 = Some (stop, s')"
      using run n sel False by (simp add: server_round_def Let_def bind_Some_iff split del: if_split) blast
    have "calm s1 s2" using s2(1) accept_conn_calm by (auto split: if_splits)
    then have "sound s2" using calm_sound sd by blast
    then show ?thesis by (rule serve_conns_sound [OF s2(2)])
  qed
qed

lemma server_reach_sound: "server_reach fd s0 s \<Longrightarrow> sound s0 \<Longrightarrow> sound s"
  by (induction rule: server_reach.induct) (use server_round_sound in blast)+

end
