(* ===== verification/Loop_Proof.thy ===== *)
theory Loop_Proof
  imports Pass_Proof Safety_Proof
begin

text \<open>
  When the server stops: under traffic its rounds can serve, the loop returns exactly when
  \<open>select\<close> fails or a user sends \<open>SHUTDOWN\<close>.
\<close>

section \<open>Who says SHUTDOWN\<close>

definition is_shutdown :: "string \<Rightarrow> bool" where
  "is_shutdown line \<longleftrightarrow> (case tokenize line of [w] \<Rightarrow> strcaseeq ''SHUTDOWN'' w | _ \<Rightarrow> False)"

lemma shutdown_other: "strcaseeq ''SHUTDOWN'' w \<Longrightarrow> \<not> strcaseeq ''HELP'' w \<and> \<not> strcaseeq ''SET'' w \<and> \<not> strcaseeq ''EXISTS'' w \<and>
    \<not> strcaseeq ''GET'' w \<and> \<not> strcaseeq ''DELETE'' w \<and> \<not> strcaseeq ''EXPIRE'' w \<and> \<not> strcaseeq ''SAVE'' w \<and> \<not> strcaseeq ''EXIT'' w"
proof -
  have "\<not> strcaseeq ''HELP'' ''SHUTDOWN''" "\<not> strcaseeq ''SET'' ''SHUTDOWN''" "\<not> strcaseeq ''EXISTS'' ''SHUTDOWN''"
    "\<not> strcaseeq ''GET'' ''SHUTDOWN''" "\<not> strcaseeq ''DELETE'' ''SHUTDOWN''" "\<not> strcaseeq ''EXPIRE'' ''SHUTDOWN''"
    "\<not> strcaseeq ''SAVE'' ''SHUTDOWN''" "\<not> strcaseeq ''EXIT'' ''SHUTDOWN''" by code_simp+
  moreover assume "strcaseeq ''SHUTDOWN'' w"
  ultimately show ?thesis using strcaseeq_other [of "''SHUTDOWN''" w] by simp
qed

text \<open>No other request has the code that stops the server.\<close>

lemma sp_codes:
  "fst (fst (sp_set k v st)) \<noteq> DB_ERR_SHUTDOWN" "fst (fst (sp_get clk k st)) \<noteq> DB_ERR_SHUTDOWN"
  "fst (fst (sp_ttl clk k st)) \<noteq> DB_ERR_SHUTDOWN" "fst (fst (sp_exists clk k st)) \<noteq> DB_ERR_SHUTDOWN"
  "fst (fst (sp_delete k st)) \<noteq> DB_ERR_SHUTDOWN" "fst (fst (sp_expire clk k d st)) \<noteq> DB_ERR_SHUTDOWN"
  by (auto simp: sp_set_def sp_get_def sp_ttl_def sp_exists_def sp_delete_def sp_expire_def told_def case_prod_unfold Let_def)

lemma spec_shutdown: "fst (fst (server_spec e line st)) = DB_ERR_SHUTDOWN \<longleftrightarrow> is_shutdown line"
proof (cases "tokenize line")
  case (Cons w args)
  show ?thesis
  proof (cases "strcaseeq ''SHUTDOWN'' w")
    case True
    then show ?thesis using shutdown_other [OF True] Cons by (cases args) (simp_all add: server_spec_def spec_request_def is_shutdown_def)
  next
    case False
    have "fst (fst (spec_request clk (w # args) st)) \<noteq> DB_ERR_SHUTDOWN" for clk
      unfolding spec_request_def using False sp_codes
      by (simp split: list.split)
    then show ?thesis using False Cons by (simp add: server_spec_def is_shutdown_def split: list.split)
  qed
qed (simp add: server_spec_def spec_request_def is_shutdown_def)

lemma pass_stops: "fst (pass_spec e qs st) \<longleftrightarrow> (\<exists>(c, line)\<in>set qs. is_shutdown line)"
proof (induction e qs st rule: pass_spec.induct)
  case (2 e c line qs st)
  obtain code msg st1 where s: "server_spec e line st = ((code, msg), st1)" by (metis prod.collapse)
  have code: "code = DB_ERR_SHUTDOWN \<longleftrightarrow> is_shutdown line" using spec_shutdown [of e line st] s by simp
  show ?case
  proof (cases "code = DB_ERR_SHUTDOWN")
    case False
    then have "fst (pass_spec e ((c, line) # qs) st) = fst (pass_spec e qs st1)" by (simp add: s case_prod_unfold Let_def)
    then show ?thesis using "2.IH" [OF s [symmetric] refl refl False] code False by simp
  qed (use s code in auto)
qed simp

section \<open>Orderly traffic\<close>

text \<open>What a round will find: its ready connections, with the lines the next reads deliver.\<close>

definition table_conns :: "db \<Rightarrow> conn_t list" where
  "table_conns s = map (\<lambda>i. the (CONN i s)) [0..<conn_len s]"

definition received_line :: "recv_result \<Rightarrow> string" where
  "received_line r = (case r of Received t \<Rightarrow> first_line (take (MAX_CMD_LEN - 1) t) | _ \<Rightarrow> [])"

definition round_select :: "db \<Rightarrow> int \<times> int list" where
  "round_select s = select_res (sys s) (n_select (sys s))"

definition round_requests :: "db \<Rightarrow> (conn_t \<times> string) list" where
  "round_requests s =
     (let cs = filter (ready (snd (round_select s))) (table_conns s)
      in zip cs (map (\<lambda>j. received_line (recv_res (sys s) (n_recv (sys s) + j))) [0..<length cs]))"

text \<open>
  Orderly traffic: descriptors that \<open>select\<close> can watch, and unless \<open>select\<close> fails no new client, only active
  users among the ready ones, a read that brings bytes for each, and admissible requests.
\<close>

definition orderly :: "int \<Rightarrow> db \<Rightarrow> bool" where
  "orderly fd s \<longleftrightarrow> fd_ok fd \<and> (\<forall>c\<in>set (table_conns s). servable (snd (round_select s)) c) \<and>
     (0 \<le> fst (round_select s) \<longrightarrow> fd \<notin> set (snd (round_select s)) \<and>
       (\<forall>j<length (round_requests s). \<exists>t. recv_res (sys s) (n_recv (sys s) + j) = Received t) \<and>
       pass_ok (server_env s) (round_requests s) (spec_of s))"

lemma delivers_next:
  "(\<forall>j<n. \<exists>t. f (k + j) = Received t) \<Longrightarrow> delivers f k (map (\<lambda>j. received_line (f (k + j))) [0..<n])"
proof (induction n arbitrary: k)
  case (Suc n)
  have m: "map (\<lambda>j. received_line (f (k + j))) [0..<Suc n] =
      received_line (f k) # map (\<lambda>j. received_line (f (Suc k + j))) [0..<n]"
    by (simp add: map_upt_Suc del: upt_Suc)
  have "\<exists>t. f (Suc k + j) = Received t" if "j < n" for j using Suc.prems that by (metis Suc_less_eq add_Suc_shift)
  then have "delivers f (Suc k) (map (\<lambda>j. received_line (f (Suc k + j))) [0..<n])" by (intro Suc.IH) blast
  moreover obtain t where "f k = Received t" using Suc.prems by (metis add_0_right zero_less_Suc)
  ultimately show ?case unfolding m by (simp add: received_line_def)
qed simp

lemma table_conns_map: "table_inv s \<Longrightarrow> map (\<lambda>i. CONN i s) [0..<conn_len s] = map Some (table_conns s)"
  unfolding table_conns_def map_map
  by (rule map_cong [OF refl]) (use table_invD [of s] in \<open>force simp: comp_def\<close>)

text \<open>An orderly round is defined; it stops for the two reasons only, and otherwise leaves a good database.\<close>

definition stops :: "db \<Rightarrow> bool" where
  "stops s \<longleftrightarrow> fst (round_select s) < 0 \<or> (\<exists>(c, line)\<in>set (round_requests s). is_shutdown line)"

lemma orderly_round:
  assumes "orderly fd s" "table_inv s" "db_inv s"
  shows "\<exists>s'. server_round fd s = Some (stops s, s') \<and> table_inv s' \<and> (\<not> stops s \<longrightarrow> db_inv s')"
proof -
  obtain r rdy where sel: "round_select s = (r, rdy)" by fastforce
  have m: "map (\<lambda>i. CONN i s) [0..<conn_len s] = map Some (table_conns s)" by (rule table_conns_map [OF assms(2)])
  have sv: "fd_ok fd" "\<forall>c\<in>set (table_conns s). servable rdy c" using assms(1) sel by (simp_all add: orderly_def)
  have "\<exists>s'. server_round fd s = Some (stops s, s') \<and> (\<not> stops s \<longrightarrow> db_inv s')"
  proof (cases "r < 0")
    case True
    have "watch_conns [0..<conn_len s] s = Some (filter (\<lambda>fd. fd \<noteq> -1) (map c_fd (table_conns s)))"
      by (rule watch_conns_ok [OF m]) (use sv in \<open>auto simp: servable_def\<close>)
    moreover obtain s1 where "select_next s = ((r, rdy), s1)" using sel by (simp add: round_select_def select_next_def)
    ultimately have "server_round fd s = Some (True, send_info_to_user ''SELECT syscall got interrupted'' s1)"
      using conn_len_num [OF assms(2)] sv(1) True by (simp add: server_round_def)
    then show ?thesis using True sel by (simp add: stops_def)
  next
    case False
    let ?cs = "filter (ready rdy) (table_conns s)"
    let ?lines = "map (\<lambda>j. received_line (recv_res (sys s) (n_recv (sys s) + j))) [0..<length ?cs]"
    have q: "round_requests s = zip ?cs ?lines" by (simp add: round_requests_def sel Let_def)
    have o: "fd \<notin> set rdy" "\<forall>j<length ?cs. \<exists>t. recv_res (sys s) (n_recv (sys s) + j) = Received t"
      "pass_ok (server_env s) (zip ?cs ?lines) (spec_of s)"
      using assms(1) sel False by (simp_all add: orderly_def q)
    obtain stop evs st where p: "pass_spec (server_env s) (zip ?cs ?lines) (spec_of s) = (stop, evs, st)" by (metis prod_cases3)
    have "stop \<longleftrightarrow> (\<exists>(c, line)\<in>set (round_requests s). is_shutdown line)" using pass_stops [of "server_env s" "zip ?cs ?lines" "spec_of s"] p q by simp
    then have stop: "stops s = stop" using False sel by (simp add: stops_def)
    have "\<exists>s'. server_round fd s = Some (stop, s') \<and> db_inv s' \<and> spec_of s' = st \<and> sents s' = sents s @ evs"
      by (rule server_round_pass [OF assms(2) m sv(2) assms(3) sv(1) _ _ o(1) _ delivers_next [OF o(2)] o(3) p])
        (use sel False in \<open>auto simp: round_select_def\<close>)
    then show ?thesis using stop by blast
  qed
  then obtain s' where s': "server_round fd s = Some (stops s, s')" "\<not> stops s \<longrightarrow> db_inv s'" by blast
  then show ?thesis using server_round_step [OF s'(1) assms(2)] by (simp add: table_step_def)
qed

section \<open>The end of the loop\<close>

lemma orderly_reach:
  assumes "server_reach fd s0 s" "table_inv s0" "db_inv s0" "\<forall>s. server_reach fd s0 s \<longrightarrow> orderly fd s"
  shows "table_inv s \<and> db_inv s"
  using assms(1)
proof (induction rule: server_reach.induct)
  case entry
  show ?case using assms(2,3) by simp
next
  case (round s s')
  have "orderly fd s" using assms(4) round(1) by blast
  from orderly_round [OF this] round show ?case by auto
qed

lemma orderly_loop:
  assumes "table_inv s0" "db_inv s0" "\<forall>s. server_reach fd s0 s \<longrightarrow> orderly fd s"
  shows "(\<exists>s'. server_loop fd s0 = Some s') \<longleftrightarrow> (\<exists>s. server_reach fd s0 s \<and> stops s)"
proof -
  have "\<exists>s'. server_round fd s = Some (stops s, s')" if "server_reach fd s0 s" for s
    using orderly_round [of fd s] orderly_reach [OF that assms] assms(3) that by blast
  then have "(\<exists>s'. server_round fd s = Some (True, s')) \<longleftrightarrow> stops s" if "server_reach fd s0 s" for s
    using that by fastforce
  then show ?thesis unfolding server_loop_iff by blast
qed

lemma reach_stopped: "server_reach fd s0 s \<Longrightarrow> server_round fd s0 = Some (True, s1) \<Longrightarrow> s = s0"
  by (induction rule: server_reach.induct) auto

end
