(* ===== verification/Cli.thy ===== *)
theory Cli
  imports Common
begin

text \<open>
  \<open>src/cli.c\<close>: the client, a process of its own. Its state is the struct \<open>cli\<close> beside the
  globals of \<open>common.c\<close> and the system; the address struct \<open>server\<close> is not used after the
  handshake and is left out.
\<close>

record cli_s =
  cli_local :: bool
  cli_ip :: "string option"
  cli_port :: int
  cli_resp :: string
  cli_sockfd :: int

definition HANDSHAKE_INIT :: string where "HANDSHAKE_INIT = ''USER_JOIN''"
definition HANDSHAKE_INIT_LEN :: int where "HANDSHAKE_INIT_LEN = 9"

definition is_port :: "string \<Rightarrow> cli_s \<Rightarrow> err_t \<times> cli_s" where
  "is_port st c =
     (if \<not> list_all c_isdigit st then (1, c\<lparr>cli_resp := ''Invalid port number''\<rparr>)
      else let port = atoi st
        in if port < 1000 \<or> port > 65535 then (1, c\<lparr>cli_resp := ''Invalid port number''\<rparr>)
           else (DB_ERR_OK, c\<lparr>cli_port := port\<rparr>))"

definition usage_str :: string where
  "usage_str = ''--port|-p [PORT] '' @ ''--host|-h [IP of server; localhost by default}]''"

definition port_opt :: "string \<Rightarrow> bool" where
  "port_opt a \<longleftrightarrow> strcaseeq a ''--port'' \<or> strcaseeq a ''-p''"

definition host_opt :: "string \<Rightarrow> bool" where
  "host_opt a \<longleftrightarrow> strcaseeq a ''--host'' \<or> strcaseeq a ''-h''"

fun init_cli_config :: "string list \<Rightarrow> cli_s \<Rightarrow> err_t \<times> cli_s" where
  "init_cli_config [] c = (DB_ERR_OK, c)"
| "init_cli_config [a] c = (DB_ERR_OK, c)"
| "init_cli_config (a # b # rest) c =
     (if port_opt a then
        (let (r, c1) = is_port b c
         in if r \<noteq> DB_ERR_OK then (DB_ERR_INVALID_ARGS, c1)
            else init_cli_config rest (c1\<lparr>cli_port := atoi b\<rparr>))
      else if host_opt a then init_cli_config rest (c\<lparr>cli_ip := Some b, cli_local := False\<rparr>)
      else init_cli_config (b # rest) c)"

text \<open>\<open>socket\<close>, \<open>inet_pton\<close>, \<open>connect\<close>, then the greeting.\<close>

definition handshake_with_server :: "cli_s \<Rightarrow> db \<Rightarrow> (err_t \<times> cli_s \<times> db) option" where
  "handshake_with_server c s =
     (let (sock, s1) = call_next s
      in if sock < 0 then Some (DB_ERR_GENERIC_FAIL, c\<lparr>cli_resp := ''socket() failed''\<rparr>, s1)
         else do {
           ip \<leftarrow> cli_ip c;
           let (p, s2) = call_next s1;
           if p \<noteq> 1 then
             Some (DB_ERR_INVALID_ARGS, c\<lparr>cli_resp := ''Invalid server IP''\<rparr>, emit (Closed sock) s2)
           else do {
             let (r, s3) = call_next s2;
             if r < 0 then
               Some (DB_ERR_GENERIC_FAIL, c\<lparr>cli_resp := ''Connection failed''\<rparr>, emit (Closed sock) s3)
             else do {
               let (res, s4) = send_next sock HANDSHAKE_INIT s3;
               if res \<noteq> HANDSHAKE_INIT_LEN then
                 Some (DB_ERR_GENERIC_FAIL, c\<lparr>cli_resp := ''Unable to start connection with server''\<rparr>,
                   emit (Closed sock) s4)
               else Some (DB_ERR_OK, c\<lparr>cli_sockfd := sock\<rparr>, s4) } } })"

text \<open>\<open>while (retries-- && (res = send(...)))\<close>: whether a send took the whole command.\<close>

primrec send_retry :: "nat \<Rightarrow> int \<Rightarrow> string \<Rightarrow> db \<Rightarrow> bool \<times> db" where
  "send_retry 0 sock cmd s = (False, s)"
| "send_retry (Suc retries) sock cmd s =
     (let (res, s1) = send_next sock cmd s
      in if res = 0 then (False, s1)
         else if res = int (length cmd) then (True, s1)
         else send_retry retries sock cmd s1)"

text \<open>
  The response is received into a local buffer that nobody cleared and that gets no
  terminating zero: the text goes on with what the buffer held before.
\<close>

definition recv_resp :: "db \<Rightarrow> string option option \<times> db" where
  "recv_resp s =
     (let (r, s1) = recv_next s;
          text_of = (\<lambda>t. let bs = take MAX_RESP_LEN t
                     in if NUL \<in> set bs then Some (takeWhile (\<lambda>c. c \<noteq> NUL) bs)
                        else if length bs = MAX_RESP_LEN then None
                        else map_option (\<lambda>j. bs @ j) (uninit s1))
      in case r of
           Received t \<Rightarrow> (Some (text_of t), s1)
         | EndOfFile \<Rightarrow> (Some (text_of []), s1)
         | Interrupted \<Rightarrow> (None, s1)
         | ReadError \<Rightarrow> (None, s1))"

definition process_user_req :: "cli_s \<Rightarrow> db \<Rightarrow> (err_t \<times> cli_s \<times> db) option" where
  "process_user_req c s =
     (let (e, cmd, s1) = get_user_input s
      in if cmd = [] \<or> hd cmd = LF then Some (DB_ERR_OK, c, s1)
         else let (sent, s2) = send_retry 3 (cli_sockfd c) cmd s1
           in if \<not> sent then
                (let m = ''Failed to send request to server''
                 in Some (DB_ERR_GENERIC_FAIL, c\<lparr>cli_resp := m\<rparr>, send_info_to_user m s2))
              else let (r, s3) = recv_resp s2
                in case r of
                     None \<Rightarrow>
                       (let m = ''Did not receive response from server for request''
                        in Some (DB_ERR_GENERIC_FAIL, c\<lparr>cli_resp := m\<rparr>, send_info_to_user m s3))
                   | Some resp \<Rightarrow> do {
                       let s4 = emit (Wrote 1 (''output_fd = '' @ dec_int (output_fd (app_config s3)) @ [LF])) s3;
                       s5 \<leftarrow> (if SILENT s4 then Some s4 else map_option (\<lambda>d. send_info_to_user d s4) resp);
                       Some (DB_ERR_OK, c, s5) })"

definition dump_cli_conf_to_term :: "cli_s \<Rightarrow> db \<Rightarrow> db option" where
  "dump_cli_conf_to_term c s = do {
     ip \<leftarrow> cli_ip c;
     Some (emit (Wrote 1 (''cli_s struct:'' @ [LF] @
       [TAB] @ ''local: '' @ [TAB] @ (if cli_local c then ''true'' else ''false'') @ [LF] @
       [TAB] @ ''IP: '' @ [TAB] @ ip @ [LF] @
       [TAB] @ ''Port: '' @ [TAB] @ dec_int (cli_port c) @ [LF])) s) }"

partial_function (option) cli_loop :: "err_t \<Rightarrow> cli_s \<Rightarrow> db \<Rightarrow> (err_t \<times> cli_s \<times> db) option" where
  "cli_loop ret_code c s =
     (if ret_code \<noteq> DB_ERR_EXIT \<and> ret_code \<noteq> DB_ERR_SHUTDOWN
      then process_user_req c s \<bind> (\<lambda>(r, c1, s1). cli_loop r c1 s1)
      else Some (ret_code, c, s))"

text \<open>The end of \<open>main\<close>: the last message, if there is one.\<close>

definition cli_end :: "err_t \<Rightarrow> cli_s \<Rightarrow> db \<Rightarrow> int \<times> db" where
  "cli_end ret_code c s = (ret_code, if cli_resp c \<noteq> [] then send_info_to_user (cli_resp c) s else s)"

definition cli_main :: "string list \<Rightarrow> cli_s \<Rightarrow> db \<Rightarrow> (int \<times> db) option" where
  "cli_main argv c0 s =
     (let c = c0\<lparr>cli_local := True, cli_resp := []\<rparr>
      in if length argv < 2 then do {
           name \<leftarrow> (if argv = [] then None else Some (hd argv));
           Some (DB_ERR_INVALID_ARGS, emit (Wrote 1 (''Usage: '' @ name @ '' '' @ usage_str @ [LF])) s) }
         else let (r, c1) = init_cli_config argv c
           in if r \<noteq> DB_ERR_OK then Some (r, s)
              else if cli_port c1 = 0 then
                Some (cli_end DB_ERR_INVALID_ARGS (c1\<lparr>cli_resp := ''Invalid port number''\<rparr>) s)
              else do {
                let c2 = (if cli_local c1 then c1\<lparr>cli_ip := Some ''127.0.0.1''\<rparr> else c1);
                (h, c3, s1) \<leftarrow> handshake_with_server c2 s;
                (r', c4, s2) \<leftarrow> cli_loop h c3 s1;
                s3 \<leftarrow> dump_cli_conf_to_term c4 s2;
                Some (cli_end r' c4 s3) })"

end
