(* ===== verification/Config_Proof.thy ===== *)
theory Config_Proof
  imports Server_Proof
begin

text \<open>
  Words and configuration: the tokenizer against a splitting of the whole line, the fields of
  a configuration line, the options of the process, and the start of the server.
\<close>

section \<open>The tokenizer as a splitting\<close>

text \<open>All pieces between delimiters, empty ones included.\<close>

fun pieces :: "(char \<Rightarrow> bool) \<Rightarrow> string \<Rightarrow> string list" where
  "pieces d [] = [[]]"
| "pieces d (c # s) = (if d c then [] # pieces d s
     else (c # hd (pieces d s)) # tl (pieces d s))"

definition words_of :: "string \<Rightarrow> string list" where
  "words_of line = filter (\<lambda>w. w \<noteq> []) (pieces is_blank line)"

lemma pieces_nonempty [simp]: "pieces d s \<noteq> []"
  by (cases s) auto

lemma pieces_run:
  "pieces d s = takeWhile (\<lambda>c. \<not> d c) s #
     (if dropWhile (\<lambda>c. \<not> d c) s = [] then [] else pieces d (drop 1 (dropWhile (\<lambda>c. \<not> d c) s)))"
  by (induction s) auto

lemma pieces_skip: "filter (\<lambda>w. w \<noteq> []) (pieces d (dropWhile d s)) = filter (\<lambda>w. w \<noteq> []) (pieces d s)"
  by (induction s) auto

lemma strtok_pieces:
  "filter (\<lambda>w. w \<noteq> []) (pieces d s) =
     (case strtok_r d s of None \<Rightarrow> [] | Some (t, r) \<Rightarrow> t # filter (\<lambda>w. w \<noteq> []) (pieces d r))"
proof -
  define u where "u = dropWhile d s"
  have skip: "filter (\<lambda>w. w \<noteq> []) (pieces d s) = filter (\<lambda>w. w \<noteq> []) (pieces d u)"
    using pieces_skip [of d s] by (simp add: u_def)
  have run: "strtok_r d s = (if u = [] then None
      else Some (takeWhile (\<lambda>c. \<not> d c) u, drop 1 (dropWhile (\<lambda>c. \<not> d c) u)))"
    by (simp add: strtok_r_def Let_def u_def [symmetric])
  show ?thesis
  proof (cases "u = []")
    case True
    then show ?thesis using run skip by simp
  next
    case False
    then have "\<not> d (hd u)" unfolding u_def by (rule hd_dropWhile)
    then have "takeWhile (\<lambda>c. \<not> d c) u \<noteq> []" using False by (cases u) auto
    moreover have "filter (\<lambda>w. w \<noteq> []) (pieces d (drop 1 (dropWhile (\<lambda>c. \<not> d c) u))) = []"
      if "dropWhile (\<lambda>c. \<not> d c) u = []" unfolding that by simp
    ultimately show ?thesis
      using False run skip pieces_run [of d u] by (cases "dropWhile (\<lambda>c. \<not> d c) u = []") (simp_all del: dropWhile_eq_Nil_conv)
  qed
qed

lemma tokens_upto_pieces: "tokens_upto n s = take n (filter (\<lambda>w. w \<noteq> []) (pieces is_blank s))"
proof (induction n arbitrary: s)
  case (Suc n)
  show ?case by (subst strtok_pieces) (simp add: Suc split: option.splits)
qed simp

lemma tokenize_words: "tokenize s = take MAX_CMD_PARAMS (words_of s)"
  by (simp add: tokenize_def words_of_def tokens_upto_pieces)

section \<open>A line of the configuration file\<close>

abbreviation (input) spaces :: "string \<Rightarrow> bool" where "spaces p \<equiv> \<forall>c\<in>set p. c_isspace c"

lemma trim_pad:
  assumes "spaces p" "spaces q" "t \<noteq> []" "\<not> c_isspace (hd t)" "\<not> c_isspace (last t)"
  shows "trim (p @ t @ q) = t"
proof -
  have h: "dropWhile c_isspace (p @ t @ q) = t @ q"
    using assms(1,3,4) by (cases t) (auto simp: dropWhile_append2)
  obtain u z where z: "t = u @ [z]" using assms(3) by (cases t rule: rev_cases) auto
  then have "dropWhile c_isspace (rev (t @ q)) = rev t"
    using assms(2,5) dropWhile_stop [of "rev q" c_isspace z "rev u"] by simp
  then show ?thesis using h assms(3) by (auto simp: trim_def)
qed

lemma trim_blank: "spaces p \<Longrightarrow> trim p = []"
  by (simp add: trim_def)

lemma split_at_first: "c \<notin> set l \<Longrightarrow> split_at c (l @ c # r) = Some (l, r)"
proof -
  assume "c \<notin> set l"
  then have "takeWhile (\<lambda>x. x \<noteq> c) (l @ c # r) = l" by (intro takeWhile_stop) auto
  then show ?thesis by (simp add: split_at_def strchr_def)
qed

lemma atoi_dec_nat: "n < 2 ^ 31 \<Longrightarrow> atoi (dec_nat n) = int n"
proof -
  assume n: "n < 2 ^ 31"
  then have "atol (dec_nat n) = int n" by (simp add: atol_dec_nat LONG_MAX_def)
  moreover have "sint (word_of_int (int n) :: 32 word) = int n"
    using n sint_sbintrunc' [where 'a = 32, of "int n"] by (simp add: signed_take_bit_int_eq_self)
  ultimately show ?thesis by (simp add: atoi_def)
qed

lemma dec_nat_ends: "\<not> c_isspace (hd (dec_nat n))" "\<not> c_isspace (last (dec_nat n))"
  using dec_nat_not_space [of _ n] by simp_all

definition field_msg :: "string \<Rightarrow> string \<Rightarrow> string" where
  "field_msg field val = ''Field: '' @ [QUOTE] @ field @ [QUOTE] @ '', Value: '' @ [QUOTE] @ val @ [QUOTE]"

lemma load_line_port:
  assumes "split_at CHR ''='' line = Some (l, r)" "strcaseeq (trim l) ''port''" "0 < atoi (trim r)"
  shows "load_config_line line (res, resp, s) =
    Some (res, resp, send_info_to_user (field_msg (trim l) (trim r)) (upd_config (\<lambda>c. c\<lparr>server_port := atoi (trim r)\<rparr>) s))"
  unfolding load_config_line_def field_msg_def Let_def assms(1) prod.case option.case using assms(2,3)
  by (simp only: simp_thms if_True)

text \<open>\<open>port = n\<close>, in any letter case and with any white space around the two parts.\<close>

lemma load_port:
  assumes "spaces p1" "spaces p2" "spaces p3" "spaces p4" "strcaseeq w ''port''" "0 < n" "n < 2 ^ 31"
  shows "load_config_line (p1 @ w @ p2 @ ''='' @ p3 @ dec_nat n @ p4) (res, resp, s) =
    Some (res, resp, send_info_to_user (field_msg w (dec_nat n)) (upd_config (\<lambda>c. c\<lparr>server_port := int n\<rparr>) s))"
proof -
  obtain a b c d where w: "w = [a, b, c, d]"
    "c_tolower a = CHR ''p''" "c_tolower b = CHR ''o''" "c_tolower c = CHR ''r''" "c_tolower d = CHR ''t''"
  proof -
    have "map c_tolower w = ''port''" using assms(5) by (simp add: strcaseeq_def c_tolower_def)
    then show thesis using that by (auto simp: map_eq_Cons_conv)
  qed
  have sp: "c_tolower x \<notin> {CHR ''p'', CHR ''o'', CHR ''r'', CHR ''t''}" if "c_isspace x \<or> x = CHR ''=''" for x
    using that by (auto simp: c_isspace_def c_tolower_def)
  have "\<forall>x\<in>set w. c_tolower x \<in> {CHR ''p'', CHR ''o'', CHR ''r'', CHR ''t''}"
    unfolding w(1) by (simp add: w(2-5))
  then have in_w: "\<not> c_isspace x \<and> x \<noteq> CHR ''=''" if "x \<in> set w" for x using sp [of x] that by blast
  have "a \<in> set w" "d \<in> set w" unfolding w(1) by simp_all
  then have ns: "\<not> c_isspace a" "\<not> c_isspace d" "CHR ''='' \<notin> set w" using in_w by blast+
  have "\<not> c_isspace CHR ''=''" by (simp add: c_isspace_def)
  then have ne: "CHR ''='' \<notin> set p1" "CHR ''='' \<notin> set p2" using assms(1,2) by blast+
  have a: "split_at CHR ''='' (p1 @ w @ p2 @ ''='' @ p3 @ dec_nat n @ p4) = Some (p1 @ w @ p2, p3 @ dec_nat n @ p4)"
    using split_at_first [of "CHR ''=''" "p1 @ w @ p2"] ne ns(3) by simp
  have b: "trim (p1 @ w @ p2) = w" by (rule trim_pad) (use assms w ns in auto)
  have c: "trim (p3 @ dec_nat n @ p4) = dec_nat n" by (rule trim_pad) (use assms dec_nat_ends in auto)
  have pos: "0 < int n" using assms(6) by simp
  show ?thesis by (rule load_line_port [OF a, unfolded b c atoi_dec_nat [OF assms(7)], OF assms(5) pos])
qed

section \<open>The arguments of the process\<close>

text \<open>An argument that is no option, as the name of the program usually is.\<close>

definition plain_arg :: "string \<Rightarrow> bool" where
  "plain_arg a \<longleftrightarrow> \<not> (MIN_CONFIG_LEN \<le> length a \<and> take MIN_CONFIG_LEN a = CONFIG_PREFIX) \<and>
     a \<notin> {''--port'', ''--savefile'', ''--ismaster'', ''--daemonize''}"

lemma init_arg_plain: "plain_arg a \<Longrightarrow> init_arg a rest (res, s) = Some (res, s)"
  by (auto simp: init_arg_def config_arg_def plain_arg_def Let_def)

lemma plain_number: "plain_arg (dec_nat n)"
proof -
  have no: "CHR ''-'' \<notin> set (dec_nat n)"
    using dec_nat_digits [of "CHR ''-''" n] by (auto simp: c_isdigit_def)
  moreover have "take MIN_CONFIG_LEN (dec_nat n) \<noteq> CONFIG_PREFIX"
    using no by (metis (no_types, lifting) CONFIG_PREFIX_def in_set_takeD list.set_intros(1))
  moreover have "dec_nat n \<noteq> a" if "CHR ''-'' \<in> set a" for a using no that by metis
  ultimately show ?thesis by (simp add: plain_arg_def)
qed

definition default_config :: "db \<Rightarrow> db" where
  "default_config s = upd_config (\<lambda>c. c\<lparr>server_log_level := LOG_INFO, server_log_file := None, config_file := None,
     savefile := Path DEFAULT_SAVE_FILE\<rparr>) s"

lemma init_config_plain: "plain_arg prog \<Longrightarrow> init_server_config [prog] s = Some (DB_ERR_OK, default_config s)"
  by (simp add: init_server_config_def init_arg_plain default_config_def)

lemma init_config_port:
  assumes "plain_arg prog" "n < 2 ^ 31"
  shows "init_server_config [prog, ''--port'', dec_nat n] s =
    Some (DB_ERR_OK, upd_config (\<lambda>c. c\<lparr>server_port := int n\<rparr>) (default_config s))"
proof -
  have "init_arg ''--port'' [dec_nat n] (res, t) = Some (res, upd_config (\<lambda>c. c\<lparr>server_port := int n\<rparr>) t)" for res t
    using atoi_dec_nat [OF assms(2)] by (simp add: init_arg_def config_arg_def Let_def)
  then show ?thesis
    using init_arg_plain [OF assms(1)] init_arg_plain [OF plain_number] by (simp add: init_server_config_def default_config_def)
qed

section \<open>The connection table at the start and its other operations\<close>

lemma init_conn_table_ok:
  assumes "mem_ok s"
  shows "\<exists>s'. init_conn_table s = (DB_ERR_OK, s') \<and> table_inv s' \<and> conn_len s' = 0 \<and> data_same (snd (malloc_ok (snd (malloc_ok s)))) s'"
  using assms
  by (auto simp: init_conn_table_def malloc_ok_def alloc_def mem_ok_def table_inv_def table_fine_def conn_len_def
      data_same_def set_table_def upd_config_def conn_table_def)

lemma double_conn_table_ok:
  assumes "conn_table s = Some t" "ct_cap t = int (length (conns t))"
  shows "if INT_MAX < 2 * length (conns t) then double_conn_table s = None
    else \<exists>s'. double_conn_table s = Some (if alloc_ok (mem s) (allocs (mem s)) then DB_ERR_OK else DB_ERR_NOMEM, s') \<and>
      conn_table s' = Some (if alloc_ok (mem s) (allocs (mem s))
        then \<lparr>conns = conns t @ replicate (length (conns t)) None, ct_len = ct_len t, ct_cap = 2 * ct_cap t\<rparr> else t)"
proof -
  have "nat (int (length (conns t)) * 2) = 2 * length (conns t)" by simp
  moreover have "conn_table (snd (malloc_ok s)) = conn_table s" using malloc_table [of s] by (metis prod.collapse)
  ultimately show ?thesis using assms
    by (cases t) (auto simp: double_conn_table_def malloc_ok_def alloc_def)
qed

text \<open>On an empty table the last index is \<open>SIZE_MAX\<close>, so that an unused cell is read.\<close>

lemma remove_entry_empty:
  assumes "table_inv s" "conn_len s = 0" "idx < DEF_CONN_TABLE_SIZE"
  shows "remove_entry_conn_table idx s = None"
proof -
  obtain t where t: "conn_table s = Some t" "table_fine t" using assms(1) by (auto simp: table_inv_def)
  then have "ct_len t = 0" using assms(2) by (simp add: conn_len_def table_fine_def)
  moreover have "\<not> SIZE_MAX < length (conns t)" using t(2) by (simp add: table_fine_def DEF_CONN_TABLE_SIZE_def SIZE_MAX_def)
  moreover have "idx \<noteq> SIZE_MAX" using assms(3) by (simp add: DEF_CONN_TABLE_SIZE_def SIZE_MAX_def)
  ultimately show ?thesis using t assms(3)
    by (simp add: remove_entry_conn_table_def CONN_def table_fine_def)
qed

text \<open>Otherwise the last entry takes the place of the removed one.\<close>

lemma remove_entry_ok:
  assumes "table_inv s" "idx < conn_len s"
  shows "\<exists>s'. remove_entry_conn_table idx s = Some (DB_ERR_OK, s') \<and> table_inv s' \<and> Suc (conn_len s') = conn_len s \<and>
    (\<forall>i<conn_len s'. CONN i s' = CONN (if i = idx then conn_len s - 1 else i) s)"
proof -
  obtain t where t: "conn_table s = Some t" "table_fine t" using assms(1) by (auto simp: table_inv_def)
  define n where "n = conn_len s - 1"
  have n: "ct_len t = int n + 1" "conn_len s = Suc n" "n < length (conns t)" "idx \<le> n"
    using t assms(2) by (auto simp: n_def conn_len_def table_fine_def)
  obtain c where c: "CONN n s = Some c" "conn_fine c" using table_invD [OF assms(1), of n] n(2) by auto
  have cn: "conns t ! n = Some c" using c(1) t(1) n(3) by (simp add: CONN_def)
  define t' where "t' = (if idx \<noteq> n then t\<lparr>conns := (conns t)[idx := Some c]\<rparr> else t)"
  obtain s1 where s1: "(if idx \<noteq> n then do { c \<leftarrow> CONN n s; set_CONN idx c s } else Some s) = Some s1" "conn_table s1 = Some t'"
    using c(1) t(1) n(3,4) by (cases "idx = n") (auto simp: set_CONN_def t'_def)
  let ?s' = "send_info_to_user ''Removed entry'' (set_table (t'\<lparr>ct_len := ct_len t' - 1\<rparr>) s1)"
  have len': "ct_len t' = int n + 1" by (simp add: t'_def n(1))
  have "\<not> int idx \<ge> ct_cap t" using n t(2) by (auto simp: table_fine_def)
  moreover have "(if ct_len t = 0 then SIZE_MAX else nat (ct_len t - 1)) = n" using n(1) by simp
  ultimately have run: "remove_entry_conn_table idx s = Some (DB_ERR_OK, ?s')"
    using t(1) s1 by (simp add: remove_entry_conn_table_def Let_def)
  have fine: "table_fine (t'\<lparr>ct_len := ct_len t' - 1\<rparr>)"
    using t(2) n c(2) by (auto simp: table_fine_def t'_def nth_list_update)
  have "CONN i ?s' = CONN (if i = idx then n else i) s" if "i < n" for i
    using that t(1) n(3,4) cn by (auto simp: CONN_def t'_def nth_list_update)
  then show ?thesis
    using run fine n(2) len' by (intro exI [of _ ?s']) (simp add: table_inv_def conn_len_def)
qed

end
