(* ===== verification/Cli_Proof.thy ===== *)
theory Cli_Proof
  imports Cli Config_Proof
begin

text \<open>
  The client: which port numbers it takes, its greeting, and that its main loop has no end;
  and the start and the loops of the server process.
\<close>

section \<open>Port numbers\<close>

lemma digits_value_bound:
  "list_all c_isdigit ds \<Longrightarrow> 0 \<le> digits_value ds \<and> digits_value ds < 10 ^ length ds"
proof (induction ds rule: rev_induct)
  case (snoc d ds)
  have "0 \<le> digit_value d \<and> digit_value d \<le> 9"
    using snoc.prems by (auto simp: c_isdigit_def digit_value_def)
  then show ?case using snoc by (auto simp: digits_value_snoc)
qed (simp add: digits_value_def)

lemma atol_digits:
  assumes "list_all c_isdigit ds"
  shows "atol ds = min LONG_MAX (digits_value ds)"
proof (cases ds)
  case Nil
  then show ?thesis by (simp add: atol_def digits_value_def LONG_MAX_def LONG_MIN_def)
next
  case (Cons d es)
  then have d: "c_isdigit d" using assms by simp
  have "takeWhile c_isdigit ds = ds" using assms by (simp add: list_all_iff)
  then show ?thesis
    using digit_not_space [OF d] digit_not_sign [OF d] Cons digits_value_bound [OF assms]
    by (simp add: atol_def Let_def LONG_MIN_def LONG_MAX_def max_def min_def)
qed

lemma atoi_digits:
  assumes "list_all c_isdigit ds" "length ds \<le> 9"
  shows "atoi ds = digits_value ds"
proof -
  have v: "0 \<le> digits_value ds" "digits_value ds < 10 ^ 9"
    using digits_value_bound [OF assms(1)] power_increasing [OF assms(2), of "10::int"] by auto
  then have "atol ds = digits_value ds" using atol_digits [OF assms(1)] by (simp add: LONG_MAX_def)
  then show ?thesis
    using v sint_sbintrunc' [where 'a = 32, of "digits_value ds"] by (simp add: atoi_def signed_take_bit_int_eq_self)
qed

lemma is_port_iff:
  assumes "length st \<le> 9"
  shows "fst (is_port st c) = DB_ERR_OK \<longleftrightarrow>
    list_all c_isdigit st \<and> 1000 \<le> digits_value st \<and> digits_value st \<le> 65535"
  using atoi_digits [OF _ assms] by (auto simp: is_port_def Let_def)

lemma is_port_wraps: "is_port ''4294968296'' c = (DB_ERR_OK, c\<lparr>cli_port := 1000\<rparr>)"
proof -
  have "list_all c_isdigit ''4294968296''" "atoi ''4294968296'' = 1000" by code_simp+
  then show ?thesis by (simp add: is_port_def)
qed

section \<open>The loop of the client\<close>

lemma process_user_req_codes:
  "process_user_req c s = Some (r, c', s') \<Longrightarrow> r = DB_ERR_OK \<or> r = DB_ERR_GENERIC_FAIL"
  by (auto simp: process_user_req_def Let_def bind_Some_iff split: prod.splits if_splits option.splits)

text \<open>No request gives one of the two codes the loop waits for, so it never returns.\<close>

lemma cli_loop_returns: "cli_loop r c s = Some y \<Longrightarrow> r = DB_ERR_EXIT \<or> r = DB_ERR_SHUTDOWN"
proof -
  assume ret: "cli_loop r c s = Some y"
  show ?thesis
  proof (rule cli_loop.raw_induct [where P = "\<lambda>r c s y. r = DB_ERR_EXIT \<or> r = DB_ERR_SHUTDOWN", OF _ ret])
    fix f r c s y
    assume IH: "\<And>r c s y. f r c s = Some y \<Longrightarrow> r = DB_ERR_EXIT \<or> r = DB_ERR_SHUTDOWN"
      and eq: "(if r \<noteq> DB_ERR_EXIT \<and> r \<noteq> DB_ERR_SHUTDOWN
         then process_user_req c s \<bind> (\<lambda>(r, c1, s1). f r c1 s1) else Some (r, c, s)) = Some y"
    show "r = DB_ERR_EXIT \<or> r = DB_ERR_SHUTDOWN"
    proof (rule ccontr)
      assume no: "\<not> (r = DB_ERR_EXIT \<or> r = DB_ERR_SHUTDOWN)"
      then obtain r1 c1 s1 where s1: "process_user_req c s = Some (r1, c1, s1)" "f r1 c1 s1 = Some y"
        using eq by (auto simp: bind_Some_iff)
      from IH [OF s1(2)] process_user_req_codes [OF s1(1)] show False by auto
    qed
  qed
qed

lemma cli_loop_endless: "r \<noteq> DB_ERR_EXIT \<Longrightarrow> r \<noteq> DB_ERR_SHUTDOWN \<Longrightarrow> cli_loop r c s = None"
  using cli_loop_returns [of r c s] by (cases "cli_loop r c s") auto

lemma handshake_codes:
  "handshake_with_server c s = Some (h, c', s') \<Longrightarrow> h \<noteq> DB_ERR_EXIT \<and> h \<noteq> DB_ERR_SHUTDOWN"
  by (auto simp: handshake_with_server_def Let_def bind_Some_iff split: prod.splits if_splits)

text \<open>A client that was given a port does not end.\<close>

lemma cli_main_endless:
  assumes "2 \<le> length argv" "init_cli_config argv (c0\<lparr>cli_local := True, cli_resp := []\<rparr>) = (DB_ERR_OK, c1)" "cli_port c1 \<noteq> 0"
  shows "cli_main argv c0 s = None"
proof -
  let ?c2 = "if cli_local c1 then c1\<lparr>cli_ip := Some ''127.0.0.1''\<rparr> else c1"
  show ?thesis
  proof (cases "handshake_with_server ?c2 s")
    case None
    then show ?thesis using assms by (simp add: cli_main_def Let_def)
  next
    case (Some p)
    obtain h c3 s1 where p: "p = (h, c3, s1)" by (metis prod.collapse)
    then have "handshake_with_server ?c2 s = Some (h, c3, s1)" using Some by simp
    from handshake_codes [OF this] have "cli_loop h c3 s1 = None" by (simp add: cli_loop_endless)
    then show ?thesis using assms Some p by (simp add: cli_main_def Let_def)
  qed
qed

text \<open>\<open>-p\<close> or \<open>--port\<close> with a number in the range stores the number.\<close>

lemma init_cli_port:
  assumes "port_opt a" "\<not> port_opt prog" "\<not> host_opt prog" "1000 \<le> n" "n \<le> 65535"
  shows "init_cli_config [prog, a, dec_nat n] c = (DB_ERR_OK, c\<lparr>cli_port := int n\<rparr>)"
proof -
  have "atoi (dec_nat n) = int n" using atoi_dec_nat [of n] assms(5) by simp
  moreover have "list_all c_isdigit (dec_nat n)" using dec_nat_digits by (auto simp: list_all_iff)
  ultimately have "is_port (dec_nat n) c = (DB_ERR_OK, c\<lparr>cli_port := int n\<rparr>)" "atoi (dec_nat n) = int n"
    using assms(4,5) by (simp_all add: is_port_def)
  then show ?thesis using assms(1-3) by simp
qed

section \<open>Client and server\<close>

text \<open>What the client sends first is what the server reads as the greeting of a user.\<close>

lemma greeting_read: "first_line (take (MAX_CMD_LEN - 1) HANDSHAKE_INIT) = USER_JOIN"
  by (simp add: HANDSHAKE_INIT_def USER_JOIN_def first_line_def)

lemma greeting_joins:
  assumes inv: "table_inv s" "i < conn_len s" and db: "db_inv s" "mem_ok s"
    and c: "CONN i s = Some c" "c_state c = STATE_HANDSHAKE" "c_fd c \<in> set readfds" "fd_ok (c_fd c)"
    and rd: "recv_res (sys s) (n_recv (sys s)) = Received HANDSHAKE_INIT"
  shows "\<exists>s'. serve_conn readfds i s = Some (False, s') \<and> db_inv s' \<and> spec_of s' = spec_of s \<and> table_inv s' \<and>
    CONN i s' = Some (c\<lparr>c_type := CONN_USER, c_state := STATE_ACTIVE\<rparr>) \<and> last (io (sys s')) = Sent (c_fd c) USER_PROMPT"
proof -
  have "HANDSHAKE_INIT \<noteq> []" by (simp add: HANDSHAKE_INIT_def)
  then obtain s2 where s2: "serve_conn readfds i s = map_option (Pair False) (conn_handshake i USER_JOIN s2)"
    "db_inv s2" "spec_of s2 = spec_of s" "server_env s2 = server_env s" "one_read s s2"
    using serve_conn_reads [OF c(1,3,4) db(2) rd _ db(1)] c(2) greeting_read by auto
  have c2: "CONN i s2 = Some c" and inv2: "table_inv s2" using table_cong [OF one_readD(1) [OF s2(5)]] c(1) inv(1) by auto
  obtain s3 where s3: "set_CONN i (c\<lparr>c_type := CONN_USER, c_state := STATE_ACTIVE\<rparr>) s2 = Some s3"
    "conn_handshake i USER_JOIN s2 = Some (snd (send_next (c_fd c) USER_PROMPT s3))"
    using conn_handshake_user [OF c2] by blast
  let ?s' = "snd (send_next (c_fd c) USER_PROMPT s3)"
  have "data_same s2 ?s'" using set_CONN_same [OF s3(1)] by (simp add: data_same_def send_next_def emit_def)
  note d = data_sameD [OF this]
  have fine: "conn_fine (c\<lparr>c_type := CONN_USER, c_state := STATE_ACTIVE\<rparr>)" by (simp add: conn_fine_def)
  note k = set_CONN_keeps [OF s3(1) inv2 fine]
  have t: "conn_table ?s' = conn_table s3" by (simp add: send_next_def)
  have "table_inv ?s'" "CONN i ?s' = Some (c\<lparr>c_type := CONN_USER, c_state := STATE_ACTIVE\<rparr>)"
    using table_cong [OF t] k(1,3) by simp_all
  moreover have "last (io (sys ?s')) = Sent (c_fd c) USER_PROMPT" by (simp add: send_next_def emit_def)
  ultimately show ?thesis using s2(1-3) s3(2) d by (intro exI [of _ ?s']) simp
qed

section \<open>The local session\<close>

text \<open>Without input every round gives the code 1, so the session never ends.\<close>

definition no_input :: "db \<Rightarrow> bool" where
  "no_input s \<longleftrightarrow> (\<forall>n. recv_res (sys s) n = EndOfFile)"

lemma session_round_eof:
  "no_input s \<Longrightarrow> \<exists>s'. getAndProcessCommand s = Some (1, s') \<and> no_input s'"
  by (auto simp: no_input_def getAndProcessCommand_def get_user_input_def recv_next_def Let_def)

text \<open>The state after the first \<open>n\<close> rounds of the session, with the code of the last one.\<close>

primrec session_rounds :: "nat \<Rightarrow> db \<Rightarrow> (err_t \<times> db) option" where
  "session_rounds 0 s = Some (DB_ERR_OK, s)"
| "session_rounds (Suc n) s = do { (r, s1) \<leftarrow> session_rounds n s; getAndProcessCommand s1 }"

text \<open>What a round without input writes: the prompt and the report of an invalid operation.\<close>

definition invalid_round :: "db \<Rightarrow> io_event list" where
  "invalid_round s = (let fd = output_fd (app_config s) in
     [Wrote fd USER_PROMPT, Wrote fd (BOLD @ RED @ ''Invalid operation requested'' @ RESET), Wrote fd [LF]])"

lemma session_round_output:
  assumes "no_input s" "\<not> SILENT s"
  shows "\<exists>s'. getAndProcessCommand s = Some (1, s') \<and> no_input s' \<and> \<not> SILENT s' \<and> app_config s' = app_config s \<and>
    io (sys s') = io (sys s) @ invalid_round s"
proof -
  have "USER_PROMPT \<noteq> []" by (simp add: USER_PROMPT_def)
  then show ?thesis using assms
    by (auto simp: no_input_def getAndProcessCommand_def get_user_input_def recv_next_def Let_def send_info_to_user_def
        emit_def invalid_round_def)
qed

lemma session_rounds_eof:
  assumes "no_input s" "\<not> SILENT s"
  shows "\<exists>s'. session_rounds n s = Some (if n = 0 then DB_ERR_OK else 1, s') \<and> no_input s' \<and> \<not> SILENT s' \<and>
    app_config s' = app_config s \<and> io (sys s') = io (sys s) @ concat (replicate n (invalid_round s))"
proof (induction n)
  case 0
  then show ?case using assms by simp
next
  case (Suc n)
  then obtain s1 where s1: "session_rounds n s = Some (if n = 0 then DB_ERR_OK else 1, s1)" "no_input s1" "\<not> SILENT s1"
    "app_config s1 = app_config s" "io (sys s1) = io (sys s) @ concat (replicate n (invalid_round s))" by blast
  have "invalid_round s1 = invalid_round s" using s1(4) by (simp add: invalid_round_def)
  then have "concat (replicate n (invalid_round s)) @ invalid_round s1 = concat (replicate (Suc n) (invalid_round s))"
    by (simp only: concat_replicate_snoc)
  then show ?case using session_round_output [OF s1(2,3)] s1 by auto
qed

lemma event_loop_eof: "no_input s \<Longrightarrow> r \<noteq> DB_ERR_EXIT \<Longrightarrow> event_loop_from r s = None"
proof (rule ccontr)
  assume a: "no_input s" "r \<noteq> DB_ERR_EXIT" "event_loop_from r s \<noteq> None"
  then obtain y where ret: "event_loop_from r s = Some y" by blast
  have "no_input s \<longrightarrow> r = DB_ERR_EXIT"
  proof (rule event_loop_from.raw_induct [where P = "\<lambda>r s y. no_input s \<longrightarrow> r = DB_ERR_EXIT", OF _ ret])
    fix f r s y
    assume IH: "\<And>r s y. f r s = Some y \<Longrightarrow> no_input s \<longrightarrow> r = DB_ERR_EXIT"
      and eq: "(if r \<noteq> DB_ERR_EXIT then getAndProcessCommand s \<bind> (\<lambda>(r, s1). f r s1) else Some s) = Some y"
    show "no_input s \<longrightarrow> r = DB_ERR_EXIT"
    proof (intro impI, rule ccontr)
      assume n: "no_input s" "r \<noteq> DB_ERR_EXIT"
      obtain s' where s': "getAndProcessCommand s = Some (1, s')" "no_input s'" using session_round_eof [OF n(1)] by blast
      then have "f 1 s' = Some y" using eq n(2) by simp
      from IH [OF this] s'(2) show False by simp
    qed
  qed
  then show False using a by simp
qed

section \<open>The start of the server\<close>

text \<open>
  With \<open>--port n\<close> and working system calls the process comes to its loop with an empty
  database and an empty connection table.
\<close>

definition fresh :: "db \<Rightarrow> bool" where
  "fresh s \<longleftrightarrow> ents (mem s) = (\<lambda>_. None) \<and> mem_ok s \<and> \<not> cfg_rebuild (host_config s) \<and>
     \<not> cfg_daemonize (host_config s) \<and> master (host_config s) = None"

lemma setup_empty:
  assumes "ents (mem s) = (\<lambda>_. None)" "mem_ok s"
  obtains s2 s3 where "ht_init s = Some (True, s2)" "ttl_init s2 = Some s3" "db_inv s3" "abs_kv s3 = (\<lambda>_. None)"
    "mem_ok s3" "host_config s3 = host_config s" "sys s3 = sys s"
proof -
  define s2 where "s2 = snd (malloc_ok (snd (malloc_ok s)))\<lparr>ht := empty_table\<rparr>"
  define s3 where "s3 = snd (malloc_ok (snd (malloc_ok s2)))\<lparr>ttl := empty_heap\<rparr>"
  have k2: "ht_init s = Some (True, s2)" "ents (mem s2) = (\<lambda>_. None)" "mem_ok s2" "ht s2 = empty_table"
      "host_config s2 = host_config s" "sys s2 = sys s"
    using ht_init_run [OF assms(2)] assms by (simp_all add: s2_def malloc_ok_def case_prod_unfold mem_ok_def)
  have k3: "ttl_init s2 = Some s3" "ents (mem s3) = (\<lambda>_. None)" "mem_ok s3" "ht s3 = empty_table" "ttl s3 = empty_heap"
      "host_config s3 = host_config s2" "sys s3 = sys s2"
    using ttl_init_run [OF k2(3)] k2 by (simp_all add: s3_def malloc_ok_def case_prod_unfold mem_ok_def)
  show thesis by (rule that [of s2 s3]) (use k2 k3 init_keeps [OF k3(2,4,5)] in simp_all)
qed

lemma boot_server:
  assumes "fresh s" "plain_arg prog" "0 < n" "n \<le> 65535" "\<forall>k. 0 \<le> call_res (sys s) k"
  shows "\<exists>s4. db_inv s4 \<and> abs_kv s4 = (\<lambda>_. None) \<and> mem_ok s4 \<and> table_inv s4 \<and> conn_len s4 = 0 \<and>
    main_server [prog, ''--port'', dec_nat n] s = (do {
      s5 \<leftarrow> server_loop (call_res (sys s) (n_call (sys s))) s4;
      (p, s6) \<leftarrow> purge_conn_table s5;
      Some (0, emit (Closed (call_res (sys s) (n_call (sys s)))) s6) })"
proof -
  let ?s1 = "upd_config (\<lambda>c. c\<lparr>server_port := int n\<rparr>) (default_config s)"
  have i: "init_server_config [prog, ''--port'', dec_nat n] s = Some (DB_ERR_OK, ?s1)"
    by (rule init_config_port) (use assms in auto)
  have f1: "ents (mem ?s1) = (\<lambda>_. None)" "mem_ok ?s1" "sys ?s1 = sys s"
    using assms(1) by (simp_all add: fresh_def upd_config_def default_config_def mem_ok_def)
  obtain s2 s3 where s3: "ht_init ?s1 = Some (True, s2)" "ttl_init s2 = Some s3" "db_inv s3" "abs_kv s3 = (\<lambda>_. None)"
    "mem_ok s3" "host_config s3 = host_config ?s1" "sys s3 = sys ?s1"
    using setup_empty [OF f1(1,2)] .
  have hc: "\<not> cfg_rebuild (host_config s3)" "\<not> cfg_daemonize (host_config s3)" "the_master s3 = None" "server_port (host_config s3) = int n"
    using assms(1) s3(6) by (simp_all add: fresh_def upd_config_def default_config_def the_master_def)
  have "main_server [prog, ''--port'', dec_nat n] s = main_serve s3"
    using i s3(1,2) hc(2) by (simp add: main_server_def)
  also have "\<dots> = do { (ex, t) \<leftarrow> run_as_server s3; Some (case ex of None \<Rightarrow> (0, t) | Some r \<Rightarrow> (r, t)) }"
    using hc assms(3) by (simp add: main_serve_def)
  finally have m: "main_server [prog, ''--port'', dec_nat n] s =
      do { (ex, t) \<leftarrow> run_as_server s3; Some (case ex of None \<Rightarrow> (0, t) | Some r \<Rightarrow> (r, t)) }" .
  define t where "t = send_info_to_user ''Server started'' (snd (call_next (snd (call_next (snd (call_next s3))))))"
  have same: "data_same s3 t" by (simp add: t_def data_same_def call_next_def)
  have mo: "mem_ok t" using s3(5) same by (simp add: data_same_def mem_ok_def)
  obtain s4 where s4: "init_conn_table t = (DB_ERR_OK, s4)" "table_inv s4" "conn_len s4 = 0"
    "data_same (snd (malloc_ok (snd (malloc_ok t)))) s4"
    using init_conn_table_ok [OF mo] by blast
  have fd: "fst (call_next s3) = call_res (sys s) (n_call (sys s))" using s3(7) f1(3) by (simp add: call_next_def)
  have ok: "\<not> fst (call_next s3) < 0" "\<not> fst (call_next (snd (call_next s3))) < 0"
      "\<not> fst (call_next (snd (call_next (snd (call_next s3))))) < 0"
    using assms(5) s3(7) f1(3) by (simp_all add: call_next_def not_less)
  have run: "run_as_server s3 = do {
      s5 \<leftarrow> server_loop (fst (call_next s3)) s4; (p, s6) \<leftarrow> purge_conn_table s5; Some (None, emit (Closed (fst (call_next s3))) s6) }"
    using ok s4(1) by (simp add: run_as_server_def case_prod_unfold t_def [symmetric] Let_def)
  have inv_t: "db_inv t" "spec_of t = spec_of s3" using data_sameD [OF same] s3(3) by simp_all
  let ?u = "snd (malloc_ok (snd (malloc_ok t)))"
  have u: "ents (mem ?u) = ents (mem t)" "nxt (mem t) \<le> nxt (mem ?u)" "ht ?u = ht t" "ttl ?u = ttl t" "alloc_ok (mem ?u) = alloc_ok (mem t)"
    by (simp_all add: malloc_ok_def case_prod_unfold)
  have inv_u: "db_inv ?u" "abs_kv ?u = abs_kv t" by (rule db_inv_ents [OF inv_t(1)]; use u in simp)+
  have "db_inv s4" "abs_kv s4 = (\<lambda>_. None)" "mem_ok s4"
    using data_sameD [OF s4(4)] inv_u inv_t(2) s3(4) mo s4(4) u(5) by (simp_all add: spec_of_def data_same_def mem_ok_def)
  moreover have "main_server [prog, ''--port'', dec_nat n] s = (do {
      s5 \<leftarrow> server_loop (call_res (sys s) (n_call (sys s))) s4;
      (p, s6) \<leftarrow> purge_conn_table s5;
      Some (0, emit (Closed (call_res (sys s) (n_call (sys s)))) s6) })"
    unfolding m run fd by (simp add: bind_assoc case_prod_unfold)
  ultimately show ?thesis using s4(2,3) by blast
qed

end
