(* ===== verification/Replication_Proof.thy ===== *)
theory Replication_Proof
  imports Replication
begin

text \<open>
  Replication: the signal mappers, the list of replicas as a chain of nodes, and the blocks
  in which the save file is sent.
\<close>

section \<open>Signals\<close>

lemma emit_neq: "emit e s \<noteq> s"
proof
  assume "emit e s = s"
  then have "io (sys (emit e s)) = io (sys s)" by simp
  then show False by (simp add: emit_def)
qed

lemma signal_texts: "distinct [REPL_JOIN, REPL_INIT_JOIN, REPL_JOINED, REPL_LEAVE, REPL_LEFT, USER_JOIN, ''UNKNOWN_SIGNAL'']"
  by (simp add: REPL_JOIN_def REPL_INIT_JOIN_def REPL_JOINED_def REPL_LEAVE_def REPL_LEFT_def USER_JOIN_def)

lemma map_signal_known:
  "sg \<noteq> UNKNOWN_SIG \<Longrightarrow> map_string_to_enum (map_enum_to_string sg) s =
     (if sg = REPL_INIT_SIG then REPL_JOINED_SIG else sg, s)"
  using signal_texts by (cases sg) (auto simp: map_string_to_enum_def map_enum_to_string_def)

lemma map_signal_unknown:
  "map_string_to_enum (map_enum_to_string UNKNOWN_SIG) s =
     (UNKNOWN_SIG, emit (StdErr (''Unknown signal: '' @ ''UNKNOWN_SIGNAL'' @ [LF])) s)"
  using signal_texts by (auto simp: map_string_to_enum_def map_enum_to_string_def)

section \<open>The chain of nodes\<close>

text \<open>The nodes reached from a pointer, in order, all allocated.\<close>

fun chain :: "(addr \<Rightarrow> replicaNode option) \<Rightarrow> addr option \<Rightarrow> (addr \<times> replicaNode) list \<Rightarrow> bool" where
  "chain st p [] \<longleftrightarrow> p = None"
| "chain st p ((a, x) # xs) \<longleftrightarrow> p = Some a \<and> st a = Some x \<and> chain st (r_next x) xs"

text \<open>The list of a master: a chain of distinct nodes below the next free address, counted.\<close>

definition repl_list :: "db \<Rightarrow> (addr \<times> replicaNode) list \<Rightarrow> bool" where
  "repl_list s xs \<longleftrightarrow> chain (repls (mem s)) (replicas (host_config s)) xs \<and> distinct (map fst xs) \<and>
     num_replicas (host_config s) = int (length xs) \<and> (\<forall>a\<in>set (map fst xs). a < nxt (mem s))"

lemma chain_frame: "a \<notin> set (map fst xs) \<Longrightarrow> chain (st(a := y)) p xs = chain st p xs"
  by (induction st p xs rule: chain.induct) auto

lemma chain_last:
  "chain st (Some a) (xs @ [(b, x)]) \<Longrightarrow> last_repl st a = Some b \<and> st b = Some x \<and> r_next x = None"
proof (induction xs arbitrary: a)
  case Nil
  then show ?case by (subst last_repl.simps) auto
next
  case (Cons c xs)
  obtain c1 c2 where c: "c = (c1, c2)" by fastforce
  then obtain n where "r_next c2 = Some n" using Cons.prems by (cases xs) (auto simp: neq_Nil_conv)
  then show ?case using Cons c by (subst last_repl.simps) auto
qed

text \<open>Setting the last pointer appends a node.\<close>

lemma chain_append:
  assumes "chain st p (xs @ [(b, x)])" "distinct (map fst (xs @ [(b, x)]))" "st a = Some y" "r_next y = None"
    and "a \<notin> set (map fst (xs @ [(b, x)]))"
  shows "chain (st(b \<mapsto> x\<lparr>r_next := Some a\<rparr>)) p (xs @ [(b, x\<lparr>r_next := Some a\<rparr>), (a, y)])"
  using assms by (induction xs arbitrary: p) auto

definition node_of ::
  "string option \<Rightarrow> string option \<Rightarrow> string option \<Rightarrow> string \<Rightarrow> replicaNode" where
  "node_of ip hname uuid port = \<lparr>r_ip = ip, r_hostname = hname, r_port = atoi port, r_uuid = uuid, r_next = None\<rparr>"

text \<open>A replica that names the right master is appended to the list.\<close>

lemma add_repl_msg_ok:
  assumes "repl_list s xs" "cfg_uuid (host_config s) = Some uuid" "alloc_ok (mem s) (allocs (mem s))"
  shows "\<exists>s' ys. add_repl_msg (Some uuid) ruuid ip (Some port) hname s = Some (DB_ERR_OK, s') \<and>
    repl_list s' ys \<and> map (r_uuid \<circ> snd) ys = map (r_uuid \<circ> snd) xs @ [ruuid] \<and>
    map fst ys = map fst xs @ [nxt (mem s)] \<and> snd (last ys) = node_of ip hname ruuid port"
proof -
  let ?y = "node_of ip hname ruuid port"
  let ?a = "nxt (mem s)"
  obtain s1 where s1: "malloc_ok s = (True, s1)" "repls (mem s1) = repls (mem s)" "nxt (mem s1) = ?a"
      "host_config s1 = host_config s"
    using assms(3) by (auto simp: malloc_ok_def alloc_def)
  obtain s2 where s2: "new_repl ?y s1 = (?a, s2)" "repls (mem s2) = (repls (mem s))(?a \<mapsto> ?y)" "nxt (mem s2) = Suc ?a"
      "host_config s2 = host_config s"
    using s1 by (simp add: new_repl_def put_repl_def)
  have fresh: "?a \<notin> set (map fst xs)" using assms(1) by (auto simp: repl_list_def)
  have ch: "chain (repls (mem s2)) (replicas (host_config s)) xs"
    using assms(1) chain_frame [OF fresh] s2(2) by (simp add: repl_list_def)
  show ?thesis
  proof (cases xs rule: rev_cases)
    case Nil
    let ?s' = "send_info_to_user ''Added replica info in Master's memory''
      (upd_config (\<lambda>c. c\<lparr>replicas := Some ?a, num_replicas := num_replicas c + 1\<rparr>) s2)"
    have "add_repl_msg (Some uuid) ruuid ip (Some port) hname s = Some (DB_ERR_OK, ?s')"
      using assms(1,2) s1(1) s2 Nil by (simp add: add_repl_msg_def node_of_def repl_list_def)
    moreover have "repl_list ?s' [(?a, ?y)]"
      using assms(1) s2 Nil by (simp add: repl_list_def upd_config_def node_of_def)
    ultimately show ?thesis using Nil
      by (intro exI [of _ ?s'] exI [of _ "[(?a, ?y)]"]) (simp add: node_of_def)
  next
    case (snoc zs z)
    obtain b x where z: "z = (b, x)" by fastforce
    obtain h where h: "replicas (host_config s) = Some h"
      using ch snoc by (cases zs) (auto simp: z)
    have l: "last_repl (repls (mem s2)) h = Some b" "repls (mem s2) b = Some x"
      using chain_last [of "repls (mem s2)" h zs b x] ch h snoc z by auto
    let ?s' = "send_info_to_user ''Added replica info in Master's memory''
      (upd_config (\<lambda>c. c\<lparr>num_replicas := num_replicas c + 1\<rparr>) (put_repl b (x\<lparr>r_next := Some ?a\<rparr>) s2))"
    let ?ys = "zs @ [(b, x\<lparr>r_next := Some ?a\<rparr>), (?a, ?y)]"
    have "num_replicas (host_config s) \<noteq> 0" using assms(1) snoc by (simp add: repl_list_def)
    then have run: "add_repl_msg (Some uuid) ruuid ip (Some port) hname s = Some (DB_ERR_OK, ?s')"
      using assms(2) s1(1) s2 h l by (simp add: add_repl_msg_def node_of_def)
    have "chain ((repls (mem s2))(b \<mapsto> x\<lparr>r_next := Some ?a\<rparr>)) (replicas (host_config s)) ?ys"
      by (rule chain_append) (use ch snoc z s2(2) assms(1) fresh in \<open>auto simp: repl_list_def node_of_def\<close>)
    then have "repl_list ?s' ?ys"
      using assms(1) s2 snoc z fresh by (auto simp: repl_list_def upd_config_def put_repl_def)
    with run show ?thesis using snoc z
      by (intro exI [of _ ?s'] exI [of _ ?ys]) (simp add: node_of_def)
  qed
qed

text \<open>
  Removing the first node frees the node behind it too: the list of the master then starts
  with a freed node.
\<close>

lemma remove_first_frees_next:
  assumes "repl_list s ((a, x) # (b, y) # xs)" "r_uuid x = Some uuid" "length uuid < 1000"
  shows "\<exists>s'. remove_repl_msg (Some uuid) s = Some (DB_ERR_OK, s') \<and> replicas (host_config s') = Some b \<and>
    repls (mem s') b = None \<and> num_replicas (host_config s') = int (length xs) + 1"
  using assms by (auto simp: repl_list_def remove_repl_msg_def sprintf_to_def free_repl_def upd_config_def Let_def)

text \<open>The last node is removed cleanly when it is the only one.\<close>

lemma remove_only:
  assumes "repl_list s [(a, x)]" "r_uuid x = Some uuid" "length uuid < 1000"
  shows "\<exists>s'. remove_repl_msg (Some uuid) s = Some (DB_ERR_OK, s') \<and> repl_list s' []"
  using assms by (auto simp: repl_list_def remove_repl_msg_def sprintf_to_def free_repl_def upd_config_def Let_def)

section \<open>The blocks of the save file\<close>

fun blocks :: "nat \<Rightarrow> string \<Rightarrow> string list" where
  "blocks n cs = (if cs = [] \<or> n = 0 then [] else take n cs # blocks n (drop n cs))"

declare blocks.simps [simp del]

lemma socket_send_ok:
  assumes "0 < send_res (sys s) (n_send (sys s))"
  shows "socket_send_data fd x s = (DB_ERR_OK, snd (send_next fd (take (MAX_RESP_LEN - 1) x) s))"
  using assms by (simp add: socket_send_data_def send_next_def)

text \<open>Of every block the first \<open>MAX_RESP_LEN - 1\<close> bytes arrive.\<close>

lemma send_blocks_io:
  assumes "NUL \<notin> set content" "\<forall>n. 0 < send_res (sys s) n"
  shows "\<exists>s'. send_blocks fd content s = (DB_ERR_OK, s') \<and>
    io (sys s') = io (sys s) @ map (\<lambda>b. Sent fd (take (MAX_RESP_LEN - 1) b)) (blocks MAX_RESP_LEN content)"
  using assms
proof (induction content arbitrary: s rule: length_induct)
  case (1 content)
  show ?case
  proof (cases "content = []")
    case True
    then show ?thesis by (simp add: send_blocks.simps blocks.simps)
  next
    case False
    define b where "b = take MAX_RESP_LEN content"
    define s1 where "s1 = snd (send_next fd (take (MAX_RESP_LEN - 1) b) s)"
    have tw: "takeWhile (\<lambda>c. c \<noteq> NUL) b = b" using 1(2) by (auto simp: b_def takeWhile_eq_all_conv dest: in_set_takeD)
    have sent: "socket_send_data fd b s = (DB_ERR_OK, s1)" unfolding s1_def by (rule socket_send_ok) (simp add: 1(3))
    have step: "send_blocks fd content s = send_blocks fd (drop MAX_RESP_LEN content) s1"
      by (subst send_blocks.simps) (simp only: b_def [symmetric] tw sent False Let_def prod.case if_False simp_thms)
    have s1: "\<forall>n. 0 < send_res (sys s1) n" "io (sys s1) = io (sys s) @ [Sent fd (take (MAX_RESP_LEN - 1) b)]"
      using 1(3) by (simp_all add: s1_def send_next_def emit_def)
    have n: "NUL \<notin> set (drop MAX_RESP_LEN content)" using 1(2) by (auto dest: in_set_dropD)
    have short: "length (drop MAX_RESP_LEN content) < length content" using False by simp
    have "\<exists>s'. send_blocks fd (drop MAX_RESP_LEN content) s1 = (DB_ERR_OK, s') \<and>
        io (sys s') = io (sys s1) @ map (\<lambda>b. Sent fd (take (MAX_RESP_LEN - 1) b)) (blocks MAX_RESP_LEN (drop MAX_RESP_LEN content))"
      using 1(1) short n s1(1) by blast
    then show ?thesis using step s1(2) False
      by (subst blocks.simps) (simp add: b_def)
  qed
qed

text \<open>So the replica gets the whole file exactly when it is shorter than one block.\<close>

lemma concat_blocks: "0 < n \<Longrightarrow> concat (blocks n cs) = cs"
proof (induction cs rule: length_induct)
  case (1 cs)
  have "concat (blocks n (drop n cs)) = drop n cs" if "cs \<noteq> []" using that 1 by simp
  then show ?case by (subst blocks.simps) (use 1(2) in auto)
qed

lemma arrived_length:
  assumes "0 < n"
  shows "length (concat (map (take (n - 1)) (blocks n cs))) + length cs div n = length cs"
proof (induction cs rule: length_induct)
  case (1 cs)
  show ?case
  proof (cases "cs = []")
    case False
    then have "length (concat (map (take (n - 1)) (blocks n (drop n cs)))) + length (drop n cs) div n = length (drop n cs)"
      using 1 [rule_format, of "drop n cs"] False assms by simp
    moreover have "length cs div n = Suc ((length cs - n) div n)" if "n \<le> length cs" using that assms by (simp add: le_div_geq)
    ultimately show ?thesis
      using False assms by (subst blocks.simps) (cases "n \<le> length cs"; force simp: min_def)
  qed (simp add: blocks.simps)
qed

end
