(* ===== verification/Demo_Server.thy ===== *)
theory Demo_Server
  imports Loop_Proof Cli_Proof Replication_Proof
begin

text \<open>Concrete states of the server, of the expiry heap and of the list of replicas for the witnesses.\<close>

section \<open>A server with connections\<close>

definition demo_table :: "nat \<Rightarrow> conn_t \<Rightarrow> connection_table" where
  "demo_table n c = \<lparr>conns = replicate DEF_CONN_TABLE_SIZE (Some c), ct_len = int n, ct_cap = int DEF_CONN_TABLE_SIZE\<rparr>"

text \<open>The database of \<open>demo\<close>, \<open>n\<close> connections \<open>c\<close>, and a socket that delivers \<open>t\<close>.\<close>

definition demo_srv :: "nat \<Rightarrow> conn_t \<Rightarrow> string \<Rightarrow> db" where
  "demo_srv n c t = set_table (demo_table n c) (demo\<lparr>sys := (sys demo)\<lparr>recv_res := \<lambda>_. Received t\<rparr>\<rparr>)"

definition new_conn :: conn_t where
  "new_conn = \<lparr>c_fd = 7, c_type = CONN_UNKN, c_state = STATE_HANDSHAKE\<rparr>"

lemma demo_conn_fine [simp]: "conn_fine demo_conn" "conn_fine new_conn"
  by (simp_all add: conn_fine_def demo_conn_def new_conn_def)

lemma demo_srv_data: "data_same demo (demo_srv n c t)"
  by (simp add: data_same_def demo_srv_def set_table_def upd_config_def)

lemma demo_srv_facts [simp]: "db_inv (demo_srv n c t)" "mem_ok (demo_srv n c t)"
  "spec_of (demo_srv n c t) = ([''k'' \<mapsto> (''v'', -1)], 0)" "server_env (demo_srv n c t) = (\<lambda>_. 1000, True, 0)"
  "recv_res (sys (demo_srv n c t)) k = Received t"
proof -
  note d = data_sameD [OF demo_srv_data [of n c t]]
  show "db_inv (demo_srv n c t)" "spec_of (demo_srv n c t) = ([''k'' \<mapsto> (''v'', -1)], 0)"
    using d demo_inv demo_spec by simp_all
  show env: "server_env (demo_srv n c t) = (\<lambda>_. 1000, True, 0)"
    using d(3) by (simp add: server_env_def)
  then show "mem_ok (demo_srv n c t)" by (simp add: server_env_def)
  show "recv_res (sys (demo_srv n c t)) k = Received t" by (simp add: demo_srv_def set_table_def upd_config_def)
qed

lemma demo_srv_table: "conn_fine c \<Longrightarrow> n \<le> DEF_CONN_TABLE_SIZE \<Longrightarrow> table_inv (demo_srv n c t)"
  and demo_srv_len [simp]: "conn_len (demo_srv n c t) = n"
  and demo_srv_conn: "i < DEF_CONN_TABLE_SIZE \<Longrightarrow> CONN i (demo_srv n c t) = Some c"
  by (auto simp: table_inv_def table_fine_def demo_srv_def demo_table_def conn_len_def CONN_def)

text \<open>A round of the server with nothing to do.\<close>

lemma demo_idle_round: "\<exists>s'. server_round 3 (demo_srv 1 new_conn []) = Some (False, s') \<and> n_select (sys s') = 1"
proof -
  let ?s = "demo_srv 1 new_conn []"
  define s1 where "s1 = snd (select_next ?s)"
  have "sys demo = sys start" using demo_core by (simp add: core_only_def)
  then have sel: "select_next ?s = ((1, [5]), s1)" "n_select (sys s1) = 1"
    by (simp_all add: s1_def select_next_def) (simp_all add: demo_srv_def set_table_def upd_config_def start_def demo_os_def)
  have c: "CONN 0 ?s = Some new_conn" "CONN 0 s1 = Some new_conn" "NUM_CONNS ?s = Some 1" "NUM_CONNS s1 = Some 1"
    using table_cong [of s1 ?s] by (simp_all add: s1_def demo_srv_conn DEF_CONN_TABLE_SIZE_def)
      (simp_all add: NUM_CONNS_def demo_srv_def demo_table_def)
  show ?thesis
    using sel c by (simp add: server_round_def fd_ok_def new_conn_def serve_conn_def)
qed

text \<open>A round that serves a request: the socket of the connection is ready and delivers a line.\<close>

definition demo_busy :: db where
  "demo_busy = (demo_srv 1 demo_conn (''get k'' @ [LF]))\<lparr>sys := (sys (demo_srv 1 demo_conn (''get k'' @ [LF])))\<lparr>select_res := \<lambda>_. (1, [7])\<rparr>\<rparr>"

lemma demo_busy_data: "data_same demo demo_busy" "recv_res (sys demo_busy) k = Received (''get k'' @ [LF])"
  "CONN 0 demo_busy = Some demo_conn" "NUM_CONNS demo_busy = Some 1" "table_inv demo_busy"
  by (simp_all add: demo_busy_def demo_srv_def data_same_def set_table_def upd_config_def conn_table_def CONN_def NUM_CONNS_def
      demo_table_def table_inv_def table_fine_def DEF_CONN_TABLE_SIZE_def)

lemma demo_busy_safe: "db_inv demo_busy" "mem_ok demo_busy" "tame demo_busy" "spec_of demo_busy = ([''k'' \<mapsto> (''v'', -1)], 0)"
proof -
  note d = data_sameD [OF demo_busy_data(1)]
  show "db_inv demo_busy" "spec_of demo_busy = ([''k'' \<mapsto> (''v'', -1)], 0)" using d by (simp_all add: demo_inv demo_spec)
  have env: "server_env demo_busy = (\<lambda>_. 1000, True, 0)" using d(3) demo_srv_facts(4) data_sameD(3) [OF demo_srv_data] by metis
  then show "mem_ok demo_busy" by (simp add: server_env_def)
  have "atol ''get'' = 0" "atol ''k'' = 0" by code_simp+
  moreover have "spec_clock demo_busy n = 1000" for n using env by (simp add: server_env_def)
  ultimately show "tame demo_busy"
    by (simp add: tame_def demo_busy_data(2) first_line_def demo_words never_max_def LONG_MAX_def)
qed

lemma demo_busy_round: "\<exists>s'. server_round 3 demo_busy = Some (False, s') \<and> Sent 7 (''v'' @ [LF] @ USER_PROMPT) \<in> set (io (sys s'))"
proof -
  define s1 where "s1 = snd (select_next demo_busy)"
  have sel: "select_next demo_busy = ((1, [7]), s1)" by (simp add: s1_def select_next_def demo_busy_def)
  have t: "conn_table s1 = conn_table demo_busy" by (simp add: s1_def select_next_def conn_table_def)
  have c: "CONN 0 s1 = Some demo_conn" "NUM_CONNS s1 = Some 1" using table_cong(3,4) [OF t] demo_busy_data by simp_all
  have "data_same demo_busy s1" by (simp add: data_same_def s1_def select_next_def)
  note d = data_sameD [OF this]
  have r: "recv_res (sys s1) k = Received (''get k'' @ [LF])" for k using demo_busy_data(2) by (simp add: s1_def select_next_def)
  have env: "server_env s1 = (\<lambda>_. 1000, True, 0)" using d(3) data_sameD(3) [OF demo_busy_data(1)] demo_srv_facts(4) data_sameD(3) [OF demo_srv_data] by metis
  have sp: "spec_of s1 = ([''k'' \<mapsto> (''v'', -1)], 0)" using d(2) demo_busy_safe(4) by simp
  have ok: "server_ok (server_env s1) ''get k'' (spec_of s1)"
    and spec: "server_spec (server_env s1) ''get k'' (spec_of s1) = ((DB_ERR_OK, ''v''), [''k'' \<mapsto> (''v'', -1)], 1)"
    unfolding env sp by (simp_all add: server_ok_def server_spec_def demo_words demo_request_ok demo_get)
  have "db_inv s1" using d(1) demo_busy_safe(1) by simp
  then obtain s2 where "serve_conn [7] 0 s1 = Some (False, deliver demo_conn ''v'' s2)"
    using serve_conn_answers [of 0 s1 demo_conn "[7]" "''get k'' @ [LF]" "''get k''", OF c(1) _ _ _ _ _ _ r _ _ ok] unfolding spec
    by (auto simp: demo_conn_def first_line_def)
  moreover have "length USER_PROMPT < 8000" by code_simp
  then have "Sent 7 (''v'' @ [LF] @ USER_PROMPT) \<in> set (io (sys (deliver demo_conn ''v'' s2)))"
    by (simp add: deliver_def demo_conn_def socket_send_data_def send_next_def emit_def send_info_to_user_def Let_def)
  ultimately show ?thesis
    using sel c demo_busy_data(3,4) by (simp add: server_round_def fd_ok_def demo_conn_def)
qed

text \<open>
  Four clients: two have sent a line, one is asleep, and one has gone, so that its connection is closed.
  The socket delivers the answers of \<open>f\<close>.
\<close>

definition demo_conns :: "conn_t list" where
  "demo_conns = [demo_conn, demo_conn\<lparr>c_fd := 8\<rparr>, demo_conn\<lparr>c_fd := 9\<rparr>, demo_conn\<lparr>c_fd := -1\<rparr>]"

definition demo_clients :: "(nat \<Rightarrow> recv_result) \<Rightarrow> db" where
  "demo_clients f = set_table \<lparr>conns = map Some demo_conns @ replicate (DEF_CONN_TABLE_SIZE - 4) None, ct_len = 4, ct_cap = int DEF_CONN_TABLE_SIZE\<rparr>
     (demo\<lparr>sys := (sys demo)\<lparr>select_res := \<lambda>_. (2, [8, 7]), n_select := 0, n_recv := 0, io := [], recv_res := f\<rparr>\<rparr>)"

lemma demo_clients_data [simp]: "data_same demo (demo_clients f)" "recv_res (sys (demo_clients f)) = f"
  "n_recv (sys (demo_clients f)) = 0" "select_res (sys (demo_clients f)) n = (2, [8, 7])" "sents (demo_clients f) = []"
  by (simp_all add: demo_clients_def data_same_def set_table_def upd_config_def sents_def)

lemma demo_clients_table: "table_inv (demo_clients f)" "conn_len (demo_clients f) = 4"
  "map (\<lambda>i. CONN i (demo_clients f)) [0..<4] = map Some demo_conns" "\<forall>c\<in>set demo_conns. servable [8, 7] c"
  "filter (ready [8, 7]) demo_conns = [demo_conn, demo_conn\<lparr>c_fd := 8\<rparr>]"
  by (auto simp: demo_clients_def table_inv_def table_fine_def conn_len_def CONN_def DEF_CONN_TABLE_SIZE_def demo_conns_def
      demo_conn_def conn_fine_def servable_def ready_def fd_ok_def less_Suc_eq eval_nat_numeral)

lemma demo_closed_conn: "CONN 3 (demo_clients f) = Some (demo_conn\<lparr>c_fd := -1\<rparr>)"
  by (simp add: demo_clients_def CONN_def DEF_CONN_TABLE_SIZE_def demo_conns_def eval_nat_numeral)

lemma demo_clients_safe [simp]: "db_inv (demo_clients f)" "spec_of (demo_clients f) = ([''k'' \<mapsto> (''v'', -1)], 0)"
  "server_env (demo_clients f) = (\<lambda>_. 1000, True, 0)"
proof -
  note d = data_sameD [OF demo_clients_data(1) [of f]]
  show "db_inv (demo_clients f)" "spec_of (demo_clients f) = ([''k'' \<mapsto> (''v'', -1)], 0)" using d by (simp_all add: demo_inv demo_spec)
  show "server_env (demo_clients f) = (\<lambda>_. 1000, True, 0)" using d(3) data_sameD(3) [OF demo_srv_data] demo_srv_facts(4) by metis
qed

definition demo_many :: db where
  "demo_many = demo_clients (\<lambda>k. Received (if k = 0 then ''SET k w'' @ [LF] else ''get k'' @ [LF]))"

lemma demo_many_words: "tokenize ''SET k w'' = [''SET'', ''k'', ''w'']" "tokenize ''Shutdown'' = [''Shutdown'']"
  "length USER_PROMPT \<le> 8188" "length USER_PROMPT \<le> 8189"
  by code_simp+

lemma demo_many_pass:
  "pass_spec (\<lambda>_. 1000, True, 0) [(demo_conn, ''SET k w''), (demo_conn\<lparr>c_fd := 8\<rparr>, ''get k'')] ([''k'' \<mapsto> (''v'', -1)], 0) =
    (False, [Sent 7 (''OK'' @ [LF] @ USER_PROMPT), Sent 8 (''w'' @ [LF] @ USER_PROMPT)], [''k'' \<mapsto> (''w'', -1)], 1)"
  "pass_ok (\<lambda>_. 1000, True, 0) [(demo_conn, ''SET k w''), (demo_conn\<lparr>c_fd := 8\<rparr>, ''get k'')] ([''k'' \<mapsto> (''v'', -1)], 0)"
  by (simp_all add: server_spec_def server_ok_def demo_many_words demo_words spec_set sp_set_def request_ok_def demo_case
      spec_request_def sp_get_def sp_visit_def answer_sent_def demo_conn_def)

lemma demo_many_round:
  "\<exists>s'. server_round 3 demo_many = Some (False, s') \<and>
    sents s' = [Sent 7 (''OK'' @ [LF] @ USER_PROMPT), Sent 8 (''w'' @ [LF] @ USER_PROMPT)]"
proof -
  have "\<exists>s'. server_round 3 demo_many = Some (False, s') \<and> db_inv s' \<and> spec_of s' = ([''k'' \<mapsto> (''w'', -1)], 1) \<and>
    sents s' = sents demo_many @ [Sent 7 (''OK'' @ [LF] @ USER_PROMPT), Sent 8 (''w'' @ [LF] @ USER_PROMPT)]"
    by (rule server_round_pass [where rdy = "[8, 7]" and cs = demo_conns and lines = "[''SET k w'', ''get k'']" and r = 2])
      (use demo_clients_table in \<open>simp_all add: demo_many_def demo_many_pass fd_ok_def first_line_def
        del: pass_ok.simps pass_spec.simps\<close>)
  then show ?thesis by (auto simp: demo_many_def)
qed

text \<open>The second of the ready clients says \<open>SHUTDOWN\<close>.\<close>

definition demo_down :: db where
  "demo_down = demo_clients (\<lambda>k. Received (if k = 0 then ''SET k w'' @ [LF] else ''Shutdown'' @ [LF]))"

lemma demo_down_requests: "table_conns demo_down = demo_conns" "round_select demo_down = (2, [8, 7])"
  "round_requests demo_down = [(demo_conn, ''SET k w''), (demo_conn\<lparr>c_fd := 8\<rparr>, ''Shutdown'')]"
proof -
  have "map the (map (\<lambda>i. CONN i demo_down) [0..<4]) = map the (map Some demo_conns)"
    unfolding demo_down_def demo_clients_table(3) ..
  then show c: "table_conns demo_down = demo_conns"
    using demo_clients_table(2) by (simp add: table_conns_def demo_down_def comp_def)
  show s: "round_select demo_down = (2, [8, 7])" by (simp add: round_select_def demo_down_def)
  show "round_requests demo_down = [(demo_conn, ''SET k w''), (demo_conn\<lparr>c_fd := 8\<rparr>, ''Shutdown'')]"
    using demo_clients_table(5) by (simp add: round_requests_def c s) (simp add: demo_down_def received_line_def first_line_def)
qed

lemma demo_shutdown: "strcaseeq ''SHUTDOWN'' ''Shutdown''" "is_shutdown ''Shutdown''"
proof -
  show u: "strcaseeq ''SHUTDOWN'' ''Shutdown''" by code_simp
  show "is_shutdown ''Shutdown''" using u by (simp add: is_shutdown_def demo_many_words)
qed

lemma demo_down_orderly: "orderly 3 demo_down" "table_inv demo_down" "db_inv demo_down" "stops demo_down"
proof -
  have ok: "pass_ok (\<lambda>_. 1000, True, 0) [(demo_conn, ''SET k w''), (demo_conn\<lparr>c_fd := 8\<rparr>, ''Shutdown'')] ([''k'' \<mapsto> (''v'', -1)], 0)"
    using shutdown_other [OF demo_shutdown(1)]
    by (simp add: server_ok_def server_spec_def demo_many_words request_ok_def demo_case)
  show "orderly 3 demo_down"
    using demo_clients_table(4) ok
    by (simp add: orderly_def demo_down_requests fd_ok_def del: pass_ok.simps) (simp add: demo_down_def del: pass_ok.simps)
  show "table_inv demo_down" "db_inv demo_down" using demo_clients_table(1) by (simp_all add: demo_down_def)
  show "stops demo_down" using demo_shutdown(2) by (simp add: stops_def demo_down_requests)
qed

text \<open>The loop ends in its first round, so that no other state is reached.\<close>

lemma demo_down_reach: "server_reach 3 demo_down s \<Longrightarrow> s = demo_down"
  using orderly_round [OF demo_down_orderly(1-3)] demo_down_orderly(4) reach_stopped by auto

lemma start_fresh: "fresh start" "plain_arg ''main''" "\<forall>k. 0 \<le> call_res (sys start) k"
proof -
  show "fresh start" using start_mem by (simp add: fresh_def) (simp add: start_def zero_config_def)
  show "plain_arg ''main''" by (simp add: plain_arg_def)
  show "\<forall>k. 0 \<le> call_res (sys start) k" by (simp add: start_def demo_os_def)
qed

section \<open>A heap of two entries\<close>

definition q_entry :: "int \<Rightarrow> nat \<Rightarrow> Entry" where
  "q_entry x i = \<lparr>e_key = ''q'', e_value = ''q'', e_next = None, e_prev = None, e_expiry = x, e_heap_index = i\<rparr>"

text \<open>The entries at 1 (expiry 10) and 0 (expiry 20) are in the heap, the entry at 2 is not.\<close>

definition q_mem :: memory where
  "q_mem = \<lparr>ents = [0 \<mapsto> q_entry 20 1, 1 \<mapsto> q_entry 10 0, 2 \<mapsto> q_entry 5 SIZE_MAX], repls = (\<lambda>_. None), nxt = 3,
     alloc_ok = (\<lambda>_. True), allocs = 0\<rparr>"

definition q_heap :: ttl_heap where
  "q_heap = \<lparr>heap_arr = [Some 1, Some 0], h_size = 2, h_capacity = 2\<rparr>"

lemma q_set: "heap_set q_heap = {0, 1}"
  by (auto simp: heap_set_def q_heap_def heap_read_def less_Suc_eq numeral_2_eq_2)

lemma q_inv: "ttl_inv q_heap q_mem"
proof -
  have "ttl_wf q_heap q_mem" by (auto simp: ttl_wf_def q_heap_def q_mem_def q_entry_def heap_read_def less_Suc_eq numeral_2_eq_2)
  moreover have "ttl_out q_heap q_mem" using q_set by (auto simp: ttl_out_def q_mem_def q_entry_def split: if_splits)
  moreover have "ord_upto (key_at q_heap q_mem) (h_size q_heap)"
    by (auto simp: ord_upto_def q_heap_def q_mem_def q_entry_def key_at_def heap_read_def PARENT_def less_Suc_eq numeral_2_eq_2)
  moreover have "h_size q_heap < SIZE_MAX" by (simp add: q_heap_def SIZE_MAX_def)
  ultimately show ?thesis by (simp add: ttl_inv_def)
qed

lemma q_facts: "ents q_mem 2 = Some (q_entry 5 SIZE_MAX)" "(2 :: addr) \<notin> heap_set q_heap" "heap_fits q_heap"
  "can_grow q_heap q_mem" "entry_live q_mem 0" "card (heap_set q_heap) = 2" "heap_set q_heap \<noteq> {}"
  using q_set by (simp_all add: q_mem_def heap_fits_def can_grow_def q_heap_def SIZE_MAX_def entry_live_def)

section \<open>A master with two replicas\<close>

definition repl_node :: "string \<Rightarrow> addr option \<Rightarrow> replicaNode" where
  "repl_node uuid p = \<lparr>r_ip = Some ''10.0.0.2'', r_hostname = None, r_port = 6000, r_uuid = Some uuid, r_next = p\<rparr>"

definition demo_master :: db where
  "demo_master = start\<lparr>mem := (mem start)\<lparr>repls := [0 \<mapsto> repl_node ''A'' (Some 1), 1 \<mapsto> repl_node ''B'' None], nxt := 2\<rparr>,
     host_config := (host_config start)\<lparr>cfg_uuid := Some ''M'', replicas := Some 0, num_replicas := 2\<rparr>\<rparr>"

lemma demo_master_list: "repl_list demo_master [(0, repl_node ''A'' (Some 1)), (1, repl_node ''B'' None)]"
  by (simp add: repl_list_def demo_master_def repl_node_def)

section \<open>A saved database\<close>

definition demo_saved :: db where
  "demo_saved = start\<lparr>sys := (sys start)\<lparr>files := [DEFAULT_SAVE_FILE \<mapsto> file_text demo_exp]\<rparr>\<rparr>"

lemma demo_exp_savable: "savable 0 (abs_kv demo_exp)"
proof -
  have b: "bucket_bytes [''k'' \<mapsto> (''v'', 1050)] i \<le> entry_bytes [''k'' \<mapsto> (''v'', 1050)] ''k''" for i
  proof -
    let ?S = "{k. k \<in> dom [''k'' \<mapsto> (''v'', 1050::int)] \<and> string_folding_hash k = i}"
    have "?S = {} \<or> ?S = {''k''}" by (auto split: if_splits)
    moreover have ?thesis if e: "?S = {}" unfolding bucket_bytes_def e by simp
    moreover have ?thesis if e: "?S = {''k''}" unfolding bucket_bytes_def e by simp
    ultimately show ?thesis by blast
  qed
  have e: "entry_bytes [''k'' \<mapsto> (''v'', 1050)] ''k'' \<le> 30"
    using exp_str_length [of 1050] by (simp add: entry_bytes_def kv_str_def)
  have "bucket_bytes [''k'' \<mapsto> (''v'', 1050)] i < MAX_RESP_LEN" for i
    by (rule le_less_trans [OF le_trans [OF b e]]) simp
  moreover have "field_ok ''k''" "field_ok ''v''" by (simp_all add: field_ok_def is_bar_def is_bang_def)
  ultimately show ?thesis
    using e by (simp add: demo_exp_map savable_def exp_fits_def)
qed

lemma demo_saved_loading: "loading (\<lambda>_. 1000) False (\<lambda>_. None) demo_saved"
proof -
  have d: "mem demo_saved = mem start" "ht demo_saved = ht start" "ttl demo_saved = ttl start"
    by (simp_all add: demo_saved_def)
  have "heap_set (ttl start) = {}" by (simp add: empty_heap_def heap_set_def)
  then show ?thesis
    using db_inv_cong [OF d] abs_kv_cong [OF d(1,2)] start_inv start_map start_mem d
    by (simp add: loading_def mem_ok_def) (simp add: demo_saved_def start_def demo_os_def)
qed

lemma demo_exp_host: "host_config demo_exp = host_config start" "writable (sys demo_exp) p"
proof -
  have "host_config demo_exp = host_config demo" "sys demo_exp = sys (tick (tick demo))"
    using demo_exp_core by (simp_all add: core_only_def)
  moreover have "host_config demo = host_config start" "sys demo = sys start" using demo_core by (simp_all add: core_only_def)
  ultimately show "host_config demo_exp = host_config start" "writable (sys demo_exp) p"
    by (simp_all add: tick_def) (simp add: start_def demo_os_def)
qed

lemma restored_demo: "restored 1000 [''k'' \<mapsto> (''v'', 1050)] = [''k'' \<mapsto> (''v'', 1050)]"
  by (rule ext) (simp add: restored_def gone_def reload_def LONG_MAX_def)

lemma gone_demo: "gone 1000 1050 = False" by (simp add: gone_def reload_def LONG_MAX_def)

text \<open>The database of \<open>demo_exp\<close> after the time of its key has come.\<close>

definition demo_late :: db where
  "demo_late = demo_exp\<lparr>sys := (sys demo_exp)\<lparr>clock := \<lambda>_. 2000\<rparr>\<rparr>"

lemma demo_late: "db_inv demo_late" "mem_ok demo_late" "abs_kv demo_late ''k'' = Some (''v'', 1050)" "time_now demo_late = 2000"
proof -
  have d: "mem demo_late = mem demo_exp" "ht demo_late = ht demo_exp" "ttl demo_late = ttl demo_exp"
    by (simp_all add: demo_late_def)
  show "db_inv demo_late" using db_inv_cong [OF d] demo_exp_inv by simp
  show "mem_ok demo_late" using d(1) demo_exp_facts(1) by (simp add: mem_ok_def)
  show "abs_kv demo_late ''k'' = Some (''v'', 1050)" using abs_kv_cong [OF d(1,2)] demo_exp_map by simp
  show "time_now demo_late = 2000" by (simp add: demo_late_def time_now_def)
qed

definition demo_poor :: db where
  "demo_poor = demo\<lparr>mem := (mem demo)\<lparr>alloc_ok := \<lambda>_. False\<rparr>\<rparr>"

lemma demo_tick: "time_now (tick demo) = 1000"
  using demo_core by (simp add: time_now_def tick_def core_only_def)

lemma demo_host: "savefile (host_config demo) = Path DEFAULT_SAVE_FILE" "writable (sys demo) p"
proof -
  have "host_config demo = host_config start" "sys demo = sys start" using demo_core by (simp_all add: core_only_def)
  then show "savefile (host_config demo) = Path DEFAULT_SAVE_FILE" "writable (sys demo) p"
    by (simp_all add: start_def demo_os_def)
qed

section \<open>A client and a session without input\<close>

definition demo_cli :: cli_s where
  "demo_cli = \<lparr>cli_local = False, cli_ip = None, cli_port = 0, cli_resp = [], cli_sockfd = 0\<rparr>"

definition demo_silent :: db where
  "demo_silent = start\<lparr>sys := (sys start)\<lparr>recv_res := \<lambda>_. EndOfFile\<rparr>\<rparr>"

definition demo_interrupted :: db where
  "demo_interrupted = start\<lparr>sys := (sys start)\<lparr>n_recv := 0, recv_res := \<lambda>k. if k = 0 then Interrupted else Received ''USER_JOIN''\<rparr>\<rparr>"

end
