(* ===== verification/Spec2Isabelle.thy ===== *)
theory Spec2Isabelle
  imports Demo_Server
begin

text \<open>
  sahDB, a key-value store with expiry times, a save file, a server for several connections, a
  beginning of replication, and a client. The development models the C sources under \<open>src/src\<close>,
  \<open>src/include\<close> and \<open>src/network/c\<close> function by function and proves what the parts do.

  How the parts interact. \<open>main\<close> (\<open>network.c\<close>) reads the arguments and the configuration file
  (\<open>config.c\<close>), sets up the hash table (\<open>hash.c\<close>) and the expiry heap (\<open>ttl.c\<close>), reads the save file
  back (\<open>dbsave.c\<close>), joins a master (\<open>replication.c\<close>) and then serves connections or runs a local
  session. A request line goes through \<open>handle_request\<close> and \<open>processCommand\<close> (\<open>db.c\<close>), which cuts it into
  words (\<open>common.c\<close>) and calls a handler of the table \<open>commands\<close> (\<open>command.c\<close>); the handler works on
  the table, which works on the heap. The client (\<open>cli.c\<close>) is a process of its own.

  The model. Every C function is a HOL function of the process state \<open>db\<close> (\<open>State\<close>: one record with
  all globals, the heap objects as a store from addresses to entries, and the operating system as
  functions of the call number). Its result is an option: \<open>None\<close> is a run without defined result,
  that is one that dereferences a null or freed pointer, leaves an array or buffer, reads memory
  nobody wrote, overflows a signed number, or does not return. Error codes are ordinary values.
  So \<open>f s = Some r\<close> says that the run is memory safe, ends, and gives \<open>r\<close>.
    \<^item> \<open>Prelude\<close>, \<open>CLib\<close>: the option monad, numbers of 64 and 32 bits, and the routines of the C library the
      code uses (\<open>strtok_r\<close>, \<open>strcasecmp\<close>, \<open>atol\<close>, \<open>atoi\<close>, printing of numbers, bounded \<open>sprintf\<close>).
    \<^item> \<open>State\<close>: the structs, enumerations and globals of \<open>include/*.h\<close>.
    \<^item> \<open>Common\<close>, \<open>Ttl\<close>, \<open>Hash\<close>, \<open>Dbsave\<close>, \<open>Command\<close>, \<open>Db\<close>, \<open>Config\<close>, \<open>Replication\<close>, \<open>Network\<close>, \<open>Cli\<close>: the functions of
      the file of the same name, in its order, under their C names (\<open>help\<close> is \<open>help_cmd\<close>).

  The interfaces. \<open>Expiry_Queue\<close> is the locale between the table and the heap: a queue of entries in a
  shared memory, with removal from the middle; \<open>Ttl_Proof\<close> interprets it on the heap of \<open>ttl.c\<close>
  (\<open>ttlq\<close>). \<open>Simulation\<close> is the locale of forward simulation for a program that answers requests;
  \<open>Request_Proof\<close> interprets it on the server's requests (\<open>server\<close>).

  The abstract specification is in \<open>Request_Spec\<close>: a map from keys to values and expiry times, a clock,
  and for each request its code, its text and the new map.

  What the groups of lemmas show.
    \<^item> \<open>Ttl_Proof\<close>: heap order, recorded positions and array bounds (\<open>ttl_inv\<close>) are kept by insertion, removal and pop.
    \<^item> \<open>Table\<close>, \<open>Hash_Inv\<close>, \<open>Hash_Proof\<close>, \<open>Hash_Write\<close>: the buckets are disjoint lists that hold every entry once
      (\<open>db_inv\<close>); each operation keeps this and acts on the map \<open>abs_kv\<close> as specified.
    \<^item> \<open>Request_Spec\<close>, \<open>Request_Proof\<close>, \<open>Session_Proof\<close>: the handlers, \<open>processCommand\<close> and \<open>handle_request\<close> refine the
      specification; sessions of several requests; interrupted reads; what stops a save.
    \<^item> \<open>Save_Proof\<close>, \<open>Load_Proof\<close>: the bytes of the save file and the round trip through it.
    \<^item> \<open>Network_Proof\<close>, \<open>Server_Proof\<close>: the connection table as a state machine, the life of a connection
      (\<open>conn_life\<close>), reachable states of the server (\<open>server_reach\<close>), and one request from socket to socket.
    \<^item> \<open>Pass_Proof\<close>: a round with several clients refines the specification of a pass (\<open>pass_spec\<close>).
    \<^item> \<open>Loop_Proof\<close>: when the loop of the server ends: a failed \<open>select\<close>, or a round that serves a \<open>SHUTDOWN\<close>.
    \<^item> \<open>Safety_Proof\<close>: every request that returns, admissible or not, and so every run of the server keeps the
      invariant of the database (\<open>sound\<close>); \<open>tame\<close> says that no line to come makes an expiry \<open>LONG_MAX\<close>.
    \<^item> \<open>Config_Proof\<close>, \<open>Replication_Proof\<close>, \<open>Cli_Proof\<close>: words and configuration lines, signals and the list of
      replicas, the blocks of the save file, port numbers, endless loops, the start of the server.
    \<^item> \<open>Demo\<close>, \<open>Demo_Server\<close>: concrete states for the witnesses.

  Bounds and loops. Structural loops are recursive functions; \<open>shift_up\<close>, \<open>heapify\<close>, the readers of files and
  \<open>send_blocks\<close> are total with a measure. The loops that may run forever (\<open>socket_read_data\<close>, \<open>server_loop\<close>,
  \<open>event_loop_from\<close>, \<open>cli_loop\<close>, the walks along possibly damaged lists) are \<open>partial_function\<close>s in the option
  monad, without fuel. \<open>slack\<close> is the padding behind a local buffer; it is 0 in the C standard and a
  parameter here, because several buffers of the code are too small by a few bytes.

  Hypotheses. \<open>mem_ok\<close>: allocations succeed (the error path of \<open>hash_insert\<close> is a property of its own).
  \<open>request_ok\<close>: a request has a word, a help topic fits its buffer, a new expiry stays below
  \<open>LONG_MAX\<close>; \<open>SAVE\<close> is treated with the save file. \<open>savable\<close>: no separators in keys and values, and
  lines that fit the reader's buffer. \<open>orderly\<close>: a round finds no new client and
  among the ready connections only active users, whose reads bring admissible requests, or its \<open>select\<close> fails.

  Where the model is stricter than the code. A refused \<open>strdup\<close> in \<open>hash_insert\<close> and
  \<open>load_config_line\<close>, a refused \<open>calloc\<close> in \<open>serve_conn\<close> and a refused \<open>malloc\<close> in \<open>ttl_init\<close> end the run
  without result at once, where the code stores the null pointer and goes on until it is used.
  The locals of \<open>add_repl\<close> and \<open>remove_repl\<close> that no code sets are parameters of \<open>add_repl_msg\<close> and
  \<open>remove_repl_msg\<close>. The precision of \<open>%.*s\<close> that \<open>send_blocks\<close> passes as a \<open>long\<close> is read as if it were
  an \<open>int\<close>. The doubled capacity of the heap, a \<open>size_t\<close>, is not wrapped at 64 bits: an array that
  large has no memory.

  Not modelled: the addresses given to \<open>bind\<close> and \<open>connect\<close>, failing writes to the terminal and to the save
  file in the middle of a save, the unused structs \<open>KV\<close> and \<open>Page\<close>, the Go prototype, the Python client, tests
  and benchmarks (drivers in other languages).
\<close>

section \<open>Requests\<close>

text \<open>
  C1: A request a client sends is answered as the abstract database answers it. For every
  database that satisfies the invariant and every admissible request, whatever its command,
  number of words and letter case, \<open>processCommand\<close> returns without undefined behaviour, leaves in
  the context the specified code and text, keeps the invariant, and ends in a database that
  stands for the specified map of keys to values and expiry times after the specified number
  of clock readings.
\<close>

theorem processCommand_refines:
  assumes "db_inv s" "mem_ok s" "blank c" "length req < MAX_RESP_LEN"
    and "request_ok (slack s) (spec_clock s) (tokenize req) (ticks (sys s))"
    and "spec_request (spec_clock s) (tokenize req) (spec_of s) = ((code, answer_text), st')"
  shows "\<exists>r s'. processCommand req (Some c) s =
      Some (r, Some (c\<lparr>ctx_resp := answer_text, ctx_status := code\<rparr>), s') \<and>
    db_inv s' \<and> same_env s s' \<and> spec_of s' = st'"
  using processCommand_meets [OF assms(1-5)] assms(6) by (simp add: meets_def)

theorem processCommand_refines_witness:
  "\<exists>r s'. processCommand ''get k'' (Some (new_ctx demo_conn)) demo =
     Some (r, Some ((new_ctx demo_conn)\<lparr>ctx_resp := ''v'', ctx_status := DB_ERR_OK\<rparr>), s') \<and>
     db_inv s' \<and> same_env demo s' \<and> spec_of s' = ([''k'' \<mapsto> (''v'', -1)], 1)"
  by (rule processCommand_refines) (simp_all add: demo_inv demo_words demo_request_ok demo_spec demo_get)

text \<open>
  C2: A whole conversation is answered as the abstract database answers it: from any state that
  satisfies the invariant, and for any list of request lines each of which is admissible in the
  abstract state in which it arrives, every request returns, the list of codes and texts is the
  specified one, and the database ends in the specified state with its invariant.
\<close>

theorem conversation_refines:
  assumes "db_inv s" "all_ok (server_ok (server_env s)) (server_spec (server_env s)) reqs (spec_of s)"
  shows "\<exists>s'. run_steps (served conn) reqs s =
      Some (fst (run_spec (server_spec (server_env s)) reqs (spec_of s)), s') \<and> db_inv s' \<and>
    server_env s' = server_env s \<and> spec_of s' = snd (run_spec (server_spec (server_env s)) reqs (spec_of s))"
  using assms by (rule server.run_refines)

theorem conversation_refines_witness:
  "\<exists>s'. run_steps (served demo_conn) [''get k'', ''SET a b''] demo =
      Some ([(DB_ERR_OK, ''v''), (DB_ERR_OK, ''OK'')], s') \<and> db_inv s' \<and>
    abs_kv s' = [''k'' \<mapsto> (''v'', -1), ''a'' \<mapsto> (''b'', -1)]"
proof -
  let ?q = "[''get k'', ''SET a b'']"
  have full: "\<not> sp_full [''k'' \<mapsto> (''v'', -1)]" by (simp add: sp_full_def LONG_MAX_def)
  have env: "server_env demo = (\<lambda>_. 1000, True, 0)" by (simp add: server_env_def)
  have ok: "all_ok (server_ok (server_env demo)) (server_spec (server_env demo)) ?q (spec_of demo)"
    by (simp add: env server_ok_def server_spec_def demo_words demo_request_ok)
  have "run_spec (server_spec (server_env demo)) ?q (spec_of demo) =
      ([(DB_ERR_OK, ''v''), (DB_ERR_OK, ''OK'')], ([''k'' \<mapsto> (''v'', -1), ''a'' \<mapsto> (''b'', -1)], 1))"
    using full by (simp add: env server_spec_def demo_words demo_spec demo_get spec_set sp_set_def)
  then show ?thesis
    using conversation_refines [OF demo_inv ok, of demo_conn] by (auto simp: spec_of_def)
qed

text \<open>
  C3: A client reads what it wrote: after the request line \<open>SET k v\<close> the line \<open>GET k\<close> is answered with
  \<open>v\<close>, for every key and value without blanks, provided that the key had no expiry or its expiry
  is still to come. The stored map changes at \<open>k\<close> only, and the expiry of \<open>k\<close> stays.
\<close>

theorem set_then_get:
  assumes "db_inv s" "mem_ok s" "plain_word k" "plain_word v" "length k + length v < 8000"
    and "abs_kv s k \<noteq> None \<or> \<not> sp_full (abs_kv s)"
    and "kept_expiry (abs_kv s k) = -1 \<or> time_now s < kept_expiry (abs_kv s k)"
  shows "\<exists>s'. run_steps (served conn) [line_of [''SET'', k, v], line_of [''GET'', k]] s =
      Some ([(DB_ERR_OK, ''OK''), (DB_ERR_OK, v)], s') \<and> db_inv s' \<and>
    abs_kv s' = (abs_kv s)(k \<mapsto> (v, kept_expiry (abs_kv s k)))"
  using set_get_session [OF assms(1-6), of conn] assms(7) by (auto simp: live_at_def)

theorem set_then_get_witness:
  "\<exists>s'. run_steps (served demo_conn) [line_of [''SET'', ''k'', ''w''], line_of [''GET'', ''k'']] demo =
      Some ([(DB_ERR_OK, ''OK''), (DB_ERR_OK, ''w'')], s') \<and> db_inv s' \<and>
    abs_kv s' = (abs_kv demo)(''k'' \<mapsto> (''w'', kept_expiry (abs_kv demo ''k'')))"
  by (rule set_then_get) (simp_all add: demo_inv demo_map plain_word_def is_blank_def)

text \<open>
  C4: A write to a key whose time has passed is lost: \<open>SET k v\<close> answers \<open>OK\<close> but keeps the old expiry, so
  that the next \<open>GET k\<close> answers that the key does not exist and the key is gone.
\<close>

theorem set_on_expired_key:
  assumes "db_inv s" "mem_ok s" "plain_word k" "plain_word v" "length k + length v < 8000"
    and "abs_kv s k = Some (w, x)" "x \<noteq> -1" "x \<le> time_now s"
  shows "\<exists>s'. run_steps (served conn) [line_of [''SET'', k, v], line_of [''GET'', k]] s =
      Some ([(DB_ERR_OK, ''OK''), (DB_ERR_KEY_NOTEXIST, ''ERR'')], s') \<and> db_inv s' \<and>
    abs_kv s' = (abs_kv s)(k := None)"
  using set_get_session [OF assms(1-5), of conn] assms(6-8) by (auto simp: live_at_def)

theorem set_on_expired_key_witness:
  "\<exists>s'. run_steps (served demo_conn) [line_of [''SET'', ''k'', ''w''], line_of [''GET'', ''k'']] demo_late =
      Some ([(DB_ERR_OK, ''OK''), (DB_ERR_KEY_NOTEXIST, ''ERR'')], s') \<and> db_inv s' \<and>
    abs_kv s' = (abs_kv demo_late)(''k'' := None)"
  by (rule set_on_expired_key [where w = "''v''" and x = 1050])
    (simp_all add: demo_late plain_word_def is_blank_def)

section \<open>The server\<close>

text \<open>
  C5: The whole way of a request: when the descriptor of an active user is ready and the socket delivers
  bytes whose first line is an admissible request, \<open>serve_conn\<close> answers on that descriptor with the
  specified text and ends with the specified database. \<open>EXIT\<close> closes the connection afterwards,
  \<open>SHUTDOWN\<close> asks the server to stop, and nothing else does.
\<close>

theorem serve_conn_request:
  assumes "CONN i s = Some c" "c_type c = CONN_USER" "c_state c = STATE_ACTIVE" "c_fd c \<in> set readfds"
    and "0 < c_fd c" "c_fd c < FD_SETSIZE" "db_inv s"
    and "recv_res (sys s) (n_recv (sys s)) = Received t" "line = first_line (take (MAX_CMD_LEN - 1) t)" "line \<noteq> []"
    and "server_ok (server_env s) line (spec_of s)"
    and "server_spec (server_env s) line (spec_of s) = ((code, answer_text), st)"
  shows "\<exists>s1. serve_conn readfds i s =
      (if code = DB_ERR_EXIT then map_option (Pair False) (close_conn i (deliver c answer_text s1))
       else Some (code = DB_ERR_SHUTDOWN, deliver c answer_text s1)) \<and>
    db_inv s1 \<and> spec_of s1 = st \<and> server_env s1 = server_env s \<and> conn_table s1 = conn_table s"
  using serve_conn_answers [OF assms(1-11)] one_readD(1) unfolding assms(12) fst_conv snd_conv by blast

theorem serve_conn_request_witness:
  "\<exists>s1. serve_conn [7] 0 (demo_srv 1 demo_conn (''get k'' @ [LF])) =
      (if DB_ERR_OK = DB_ERR_EXIT then map_option (Pair False) (close_conn 0 (deliver demo_conn ''v'' s1))
       else Some (DB_ERR_OK = DB_ERR_SHUTDOWN, deliver demo_conn ''v'' s1)) \<and>
    db_inv s1 \<and> spec_of s1 = ([''k'' \<mapsto> (''v'', -1)], 1) \<and>
    server_env s1 = server_env (demo_srv 1 demo_conn (''get k'' @ [LF])) \<and>
    conn_table s1 = conn_table (demo_srv 1 demo_conn (''get k'' @ [LF]))"
  by (rule serve_conn_request [where line = "''get k''" and t = "''get k'' @ [LF]"])
    (simp_all add: demo_srv_conn DEF_CONN_TABLE_SIZE_def demo_conn_def first_line_def server_ok_def server_spec_def
      demo_words demo_request_ok demo_get)

text \<open>
  C6: The greeting of the client makes it a user: when the server reads on a connection that waits for
  its greeting what \<open>handshake_with_server\<close> of the client sends first, the connection becomes an
  active user and gets the prompt, the table keeps its invariant and the database is untouched.
\<close>

theorem greeting_makes_user:
  assumes "table_inv s" "i < conn_len s" "db_inv s" "mem_ok s"
    and "CONN i s = Some c" "c_state c = STATE_HANDSHAKE" "c_fd c \<in> set readfds" "fd_ok (c_fd c)"
    and "recv_res (sys s) (n_recv (sys s)) = Received HANDSHAKE_INIT"
  shows "\<exists>s'. serve_conn readfds i s = Some (False, s') \<and> db_inv s' \<and> spec_of s' = spec_of s \<and> table_inv s' \<and>
    CONN i s' = Some (c\<lparr>c_type := CONN_USER, c_state := STATE_ACTIVE\<rparr>) \<and> last (io (sys s')) = Sent (c_fd c) USER_PROMPT"
  using assms by (rule greeting_joins)

theorem greeting_makes_user_witness:
  "\<exists>s'. serve_conn [7] 0 (demo_srv 1 new_conn HANDSHAKE_INIT) = Some (False, s') \<and> db_inv s' \<and>
    spec_of s' = spec_of (demo_srv 1 new_conn HANDSHAKE_INIT) \<and> table_inv s' \<and>
    CONN 0 s' = Some (new_conn\<lparr>c_type := CONN_USER, c_state := STATE_ACTIVE\<rparr>) \<and> last (io (sys s')) = Sent (c_fd new_conn) USER_PROMPT"
  by (rule greeting_makes_user)
    (simp_all add: demo_srv_table demo_srv_conn DEF_CONN_TABLE_SIZE_def, simp_all add: new_conn_def fd_ok_def)

text \<open>
  C7: Several clients at once: a round of the server in which any number of active users have a request ready
  and no new client calls answers the requests in the order of the table, each in the state that the
  one before it left, sends every client the answer to its own request and nothing else to
  anyone, passes over the connections that are asleep or closed, and stops early exactly at a \<open>SHUTDOWN\<close>.
  The database follows the specification (\<open>pass_spec\<close>) and keeps its invariant.
\<close>

theorem server_round_refines:
  assumes "table_inv s" "map (\<lambda>i. CONN i s) [0..<conn_len s] = map Some cs" "\<forall>c\<in>set cs. servable rdy c" "db_inv s"
    and "fd_ok fd" "select_res (sys s) (n_select (sys s)) = (r, rdy)" "0 \<le> r" "fd \<notin> set rdy"
    and "length lines = length (filter (ready rdy) cs)" "delivers (recv_res (sys s)) (n_recv (sys s)) lines"
    and "pass_ok (server_env s) (zip (filter (ready rdy) cs) lines) (spec_of s)"
    and "pass_spec (server_env s) (zip (filter (ready rdy) cs) lines) (spec_of s) = (stop, evs, st)"
  shows "\<exists>s'. server_round fd s = Some (stop, s') \<and> db_inv s' \<and> spec_of s' = st \<and> sents s' = sents s @ evs"
  using assms by (rule server_round_pass)

theorem server_round_refines_witness:
  "\<exists>s'. server_round 3 demo_many = Some (False, s') \<and> db_inv s' \<and> abs_kv s' = [''k'' \<mapsto> (''w'', -1)] \<and>
    sents s' = [Sent 7 (''OK'' @ [LF] @ USER_PROMPT), Sent 8 (''w'' @ [LF] @ USER_PROMPT)]"
proof -
  have "\<exists>s'. server_round 3 demo_many = Some (False, s') \<and> db_inv s' \<and> spec_of s' = ([''k'' \<mapsto> (''w'', -1)], 1) \<and>
    sents s' = sents demo_many @ [Sent 7 (''OK'' @ [LF] @ USER_PROMPT), Sent 8 (''w'' @ [LF] @ USER_PROMPT)]"
    by (rule server_round_refines [where rdy = "[8, 7]" and cs = demo_conns and lines = "[''SET k w'', ''get k'']" and r = 2])
      (use demo_clients_table in \<open>simp_all add: demo_many_def demo_many_pass fd_ok_def first_line_def
        del: pass_ok.simps pass_spec.simps\<close>)
  then show ?thesis by (auto simp: spec_of_def demo_many_def)
qed

text \<open>
  C8: In every state the server loop reaches, the connection table keeps its invariant (each entry waits
  for its greeting without a type, or is an active user or replica, and the length stays within
  the capacity), no entry is dropped, and each connection has only gone forward in its life: it joined
  once, with its descriptor, or was closed.
\<close>

theorem server_reach_invariant:
  assumes "table_inv s0" "server_reach fd s0 s"
  shows "table_inv s \<and> conn_len s0 \<le> conn_len s \<and> conn_len s \<le> DEF_CONN_TABLE_SIZE \<and>
    (\<forall>i c. i < conn_len s0 \<longrightarrow> CONN i s0 = Some c \<longrightarrow> (\<exists>c'. CONN i s = Some c' \<and> conn_life\<^sup>*\<^sup>* c c'))"
  using server_reach_step [OF assms(2,1)] by (auto simp: table_step_def table_inv_def table_fine_def conn_len_def)

theorem server_reach_invariant_witness:
  "\<exists>s c'. server_reach 3 (demo_srv 1 new_conn []) s \<and> n_select (sys s) = 1 \<and> table_inv s \<and> 1 \<le> conn_len s \<and>
    conn_len s \<le> DEF_CONN_TABLE_SIZE \<and> CONN 0 s = Some c' \<and> conn_life\<^sup>*\<^sup>* new_conn c'"
proof -
  obtain s where s: "server_round 3 (demo_srv 1 new_conn []) = Some (False, s)" "n_select (sys s) = 1" using demo_idle_round by blast
  have inv: "table_inv (demo_srv 1 new_conn [])" by (simp add: demo_srv_table DEF_CONN_TABLE_SIZE_def)
  have reach: "server_reach 3 (demo_srv 1 new_conn []) s" by (rule server_reach.round [OF server_reach.entry s(1)])
  from server_reach_invariant [OF inv reach] s(2) reach show ?thesis
    by (auto simp: demo_srv_conn DEF_CONN_TABLE_SIZE_def)
qed

text \<open>
  C9: Whatever bytes the clients send, in whatever order the sockets become ready: in every state the server
  reaches, and in the state in which its loop returns, the hash table and the expiry heap satisfy
  the invariant of the database (disjoint bucket lists, one entry per key, right count, heap order and
  recorded positions). The one value excluded is an expiry that comes out as \<open>LONG_MAX\<close> (\<open>tame\<close>).
\<close>

theorem server_keeps_database:
  assumes "db_inv s0" "mem_ok s0" "tame s0" "server_reach fd s0 s \<or> server_loop fd s0 = Some s"
  shows "db_inv s"
proof -
  have s0: "sound s0" using assms(1-3) by (simp add: sound_def)
  from assms(4) have "sound s"
  proof
    assume "server_loop fd s0 = Some s"
    then obtain s1 where "server_reach fd s0 s1" "server_round fd s1 = Some (True, s)" by (auto simp: server_loop_iff)
    then show ?thesis using server_reach_sound server_round_sound s0 by blast
  qed (use server_reach_sound s0 in blast)
  then show ?thesis by (simp add: sound_def)
qed

theorem server_keeps_database_witness:
  "\<exists>s. server_reach 3 demo_busy s \<and> Sent 7 (''v'' @ [LF] @ USER_PROMPT) \<in> set (io (sys s)) \<and> db_inv s"
proof -
  obtain s where s: "server_round 3 demo_busy = Some (False, s)" "Sent 7 (''v'' @ [LF] @ USER_PROMPT) \<in> set (io (sys s))"
    using demo_busy_round by blast
  have "server_reach 3 demo_busy s" by (rule server_reach.round [OF server_reach.entry s(1)])
  with server_keeps_database [OF demo_busy_safe(1-3), of 3 s] s(2) show ?thesis by blast
qed

text \<open>
  C10: A closed connection stays closed: once the descriptor of an entry is -1 (the client left, said \<open>EXIT\<close>
  or sent a wrong greeting), no later round of the server changes the entry again.
\<close>

theorem closed_stays_closed:
  assumes "table_inv s0" "server_reach fd s0 s" "i < conn_len s0" "CONN i s0 = Some c" "c_fd c = -1"
  shows "CONN i s = Some c"
proof -
  obtain c' where "CONN i s = Some c'" "conn_life\<^sup>*\<^sup>* c c'"
    using server_reach_step [OF assms(2,1)] assms(3,4) by (auto simp: table_step_def)
  then show ?thesis using life_closed assms(5) by blast
qed

theorem closed_stays_closed_witness:
  "\<exists>s. server_round 3 demo_many = Some (False, s) \<and>
    sents s = [Sent 7 (''OK'' @ [LF] @ USER_PROMPT), Sent 8 (''w'' @ [LF] @ USER_PROMPT)] \<and>
    CONN 3 s = Some (demo_conn\<lparr>c_fd := -1\<rparr>)"
proof -
  obtain s where s: "server_round 3 demo_many = Some (False, s)"
    "sents s = [Sent 7 (''OK'' @ [LF] @ USER_PROMPT), Sent 8 (''w'' @ [LF] @ USER_PROMPT)]"
    using demo_many_round by blast
  have "server_reach 3 demo_many s" by (rule server_reach.round [OF server_reach.entry s(1)])
  from closed_stays_closed [OF _ this, of 3 "demo_conn\<lparr>c_fd := -1\<rparr>"] have "CONN 3 s = Some (demo_conn\<lparr>c_fd := -1\<rparr>)"
    using demo_clients_table(1,2) demo_closed_conn by (simp add: demo_many_def)
  then show ?thesis using s by blast
qed

text \<open>
  C11: Under orderly traffic (the connections can be watched, no new client calls, the ready ones are active users whose
  reads bring admissible requests) no round is undefined, and the server loop returns exactly when in some
  round it reaches \<open>select\<close> fails or one of the requests is the single word \<open>SHUTDOWN\<close>, in any letter case, from
  any of the ready clients; otherwise it serves for ever.
\<close>

theorem server_loop_ends_iff:
  assumes "table_inv s0" "db_inv s0" "\<forall>s. server_reach fd s0 s \<longrightarrow> orderly fd s"
  shows "((\<exists>s'. server_loop fd s0 = Some s') \<longleftrightarrow> (\<exists>s. server_reach fd s0 s \<and>
      (fst (round_select s) < 0 \<or> (\<exists>(c, line)\<in>set (round_requests s). is_shutdown line)))) \<and>
    (\<forall>s. server_reach fd s0 s \<longrightarrow> server_round fd s \<noteq> None)"
proof
  show "(\<exists>s'. server_loop fd s0 = Some s') \<longleftrightarrow> (\<exists>s. server_reach fd s0 s \<and>
      (fst (round_select s) < 0 \<or> (\<exists>(c, line)\<in>set (round_requests s). is_shutdown line)))"
    using orderly_loop [OF assms] unfolding stops_def .
  show "\<forall>s. server_reach fd s0 s \<longrightarrow> server_round fd s \<noteq> None"
    using orderly_reach [OF _ assms] orderly_round assms(3) by blast
qed

theorem server_loop_ends_iff_witness: "\<exists>s'. server_loop 3 demo_down = Some s'"
proof -
  have "\<forall>s. server_reach 3 demo_down s \<longrightarrow> orderly 3 s" using demo_down_reach demo_down_orderly(1) by blast
  from server_loop_ends_iff [OF demo_down_orderly(2,3) this] show ?thesis
    using server_reach.entry [of 3 demo_down] demo_down_orderly(4) unfolding stops_def by blast
qed

text \<open>
  C12: A new connection is stored safely exactly when the table has a free cell: with 32 entries the write of the
  next connection is out of bounds, because the code does not look at the capacity and never
  reclaims the entries of closed connections.
\<close>

theorem accept_conn_capacity:
  assumes "table_inv s"
  shows "(\<exists>s'. accept_conn s = Some s') \<longleftrightarrow> conn_len s < DEF_CONN_TABLE_SIZE"
proof -
  have "conn_len s \<le> DEF_CONN_TABLE_SIZE" using assms by (auto simp: table_inv_def table_fine_def conn_len_def)
  then show ?thesis using accept_conn_full [OF assms] accept_conn_ok [OF assms] by (cases "conn_len s = DEF_CONN_TABLE_SIZE") auto
qed

theorem accept_conn_capacity_witness:
  "(\<exists>s'. accept_conn (demo_srv 32 demo_conn []) = Some s') \<longleftrightarrow> conn_len (demo_srv 32 demo_conn []) < DEF_CONN_TABLE_SIZE"
  by (rule accept_conn_capacity) (simp add: demo_srv_table DEF_CONN_TABLE_SIZE_def)

text \<open>
  C13: With \<open>--port n\<close> and system calls that succeed, the process comes from \<open>main\<close> to the server loop with a
  database that satisfies the invariant and stands for the empty map, and with an empty connection
  table; when the loop ends, \<open>main\<close> frees the table, closes the listening socket and returns 0.
\<close>

theorem main_starts_server:
  assumes "fresh s" "plain_arg prog" "0 < n" "n \<le> 65535" "\<forall>k. 0 \<le> call_res (sys s) k"
  shows "\<exists>s4. db_inv s4 \<and> abs_kv s4 = (\<lambda>_. None) \<and> mem_ok s4 \<and> table_inv s4 \<and> conn_len s4 = 0 \<and>
    main_server [prog, ''--port'', dec_nat n] s = (do {
      s5 \<leftarrow> server_loop (call_res (sys s) (n_call (sys s))) s4;
      (p, s6) \<leftarrow> purge_conn_table s5;
      Some (0, emit (Closed (call_res (sys s) (n_call (sys s)))) s6) })"
  using assms by (rule boot_server)

theorem main_starts_server_witness:
  "\<exists>s4. db_inv s4 \<and> abs_kv s4 = (\<lambda>_. None) \<and> mem_ok s4 \<and> table_inv s4 \<and> conn_len s4 = 0 \<and>
    main_server [''main'', ''--port'', dec_nat 6000] start = (do {
      s5 \<leftarrow> server_loop (call_res (sys start) (n_call (sys start))) s4;
      (p, s6) \<leftarrow> purge_conn_table s5;
      Some (0, emit (Closed (call_res (sys start) (n_call (sys start)))) s6) })"
  by (rule main_starts_server) (use start_fresh in simp_all)

section \<open>The hash table\<close>

text \<open>
  C14: \<open>hash_insert\<close> stores the value under the key, keeps the expiry the key had (-1 for a new key), and
  keeps the invariant of buckets, count and expiry heap. It refuses a new key with \<open>ERR_FULL\<close>, changing
  nothing, exactly when the count has reached the end of its range. The heap is not touched. The answers are the
  texts the code writes, with a client and in the local session alike; the scripts under \<open>src/test\<close> wait for
  older texts.
\<close>

theorem hash_insert_correct:
  assumes "db_inv s" "mem_ok s" "length v < MAX_RESP_LEN"
  shows "\<exists>s1. hash_insert k v ctx s = Some
      (if abs_kv s k = None \<and> MAX_ALLOWED \<le> ht_count (ht s) + 1 then answer ctx ERR_FULL ''ERR'' s1
       else answer ctx DB_ERR_OK ''OK'' s1) \<and>
    db_inv s1 \<and> core_only s s1 \<and> ttl s1 = ttl s \<and>
    abs_kv s1 = (if abs_kv s k = None \<and> MAX_ALLOWED \<le> ht_count (ht s) + 1 then abs_kv s
                 else (abs_kv s)(k \<mapsto> (v, kept_expiry (abs_kv s k))))"
  using assms by (rule hash_insert_ok)

theorem hash_insert_correct_witness:
  "\<exists>s1. hash_insert ''k'' ''w'' None demo = Some
      (if abs_kv demo ''k'' = None \<and> MAX_ALLOWED \<le> ht_count (ht demo) + 1 then answer None ERR_FULL ''ERR'' s1
       else answer None DB_ERR_OK ''OK'' s1) \<and>
    db_inv s1 \<and> core_only demo s1 \<and> ttl s1 = ttl demo \<and>
    abs_kv s1 = (if abs_kv demo ''k'' = None \<and> MAX_ALLOWED \<le> ht_count (ht demo) + 1 then abs_kv demo
                 else (abs_kv demo)(''k'' \<mapsto> (''w'', kept_expiry (abs_kv demo ''k''))))"
  by (rule hash_insert_correct) (simp_all add: demo_inv)

text \<open>
  C15: When the entry cannot be allocated \<open>hash_insert\<close> returns \<open>DB_ERR_NOMEM\<close> without an answer: the context
  keeps what it held, so that the client is told neither \<open>OK\<close> nor \<open>ERR\<close>, and nothing is stored.
\<close>

theorem hash_insert_without_memory:
  assumes "\<not> alloc_ok (mem s) (allocs (mem s))"
  shows "\<exists>s1. hash_insert k v ctx s = Some (DB_ERR_NOMEM, ctx, s1) \<and> abs_kv s1 = abs_kv s \<and> ht s1 = ht s"
proof -
  have e: "ents (mem (snd (malloc_ok s))) = ents (mem s)" "ht (snd (malloc_ok s)) = ht s"
    by (simp_all add: malloc_ok_def case_prod_unfold)
  have "abs_kv (snd (malloc_ok s)) = abs_kv s" by (rule ext) (unfold abs_kv_def bucket_at_def e, rule refl)
  then show ?thesis using hash_insert_nomem [OF assms] e(2) by simp
qed

theorem hash_insert_without_memory_witness:
  "\<exists>s1. hash_insert ''a'' ''b'' None demo_poor = Some (DB_ERR_NOMEM, None, s1) \<and> abs_kv s1 = abs_kv demo_poor \<and> ht s1 = ht demo_poor"
  by (rule hash_insert_without_memory) (simp add: demo_poor_def)

text \<open>
  C16: \<open>hash_get\<close> answers with the stored value while the key is live, and otherwise with \<open>ERR\<close>; a key whose
  expiry has come is deleted, from the table and from the expiry heap, and every other key stays.
\<close>

theorem hash_get_correct:
  assumes "db_inv s"
  shows "\<exists>s1. hash_get k ctx s = Some
      (if live_at (time_now s) (abs_kv s k) then answer ctx DB_ERR_OK (fst (the (abs_kv s k))) s1
       else answer ctx DB_ERR_KEY_NOTEXIST ''ERR'' s1) \<and> db_inv s1 \<and>
    abs_kv s1 = (if live_at (time_now s) (abs_kv s k) then abs_kv s else (abs_kv s)(k := None))"
  using hash_get_ok [OF assms, of k ctx] by (auto simp: after_access_def access_map_def)

theorem hash_get_correct_witness:
  "\<exists>s1. hash_get ''k'' None demo_late = Some
      (if live_at (time_now demo_late) (abs_kv demo_late ''k'') then answer None DB_ERR_OK (fst (the (abs_kv demo_late ''k''))) s1
       else answer None DB_ERR_KEY_NOTEXIST ''ERR'' s1) \<and> db_inv s1 \<and>
    abs_kv s1 = (if live_at (time_now demo_late) (abs_kv demo_late ''k'') then abs_kv demo_late else (abs_kv demo_late)(''k'' := None))"
  by (rule hash_get_correct) (rule demo_late)

text \<open>
  C17: \<open>hash_delete\<close> removes exactly the key, live or expired: the entry leaves its bucket, the expiry heap and
  the memory, so that no pointer to it is left (the invariant holds afterwards), and the heap gains
  no entry. It answers \<open>OK\<close> exactly when the key was stored.
\<close>

theorem hash_delete_correct:
  assumes "db_inv s"
  shows "\<exists>s1. hash_delete k ctx s =
      Some (answer ctx (if abs_kv s k = None then DB_ERR_KEY_NOTEXIST else DB_ERR_OK)
                      (if abs_kv s k = None then ''ERR'' else ''OK'') s1) \<and>
    db_inv s1 \<and> abs_kv s1 = (abs_kv s)(k := None) \<and> core_only s s1 \<and> heap_set (ttl s1) \<subseteq> heap_set (ttl s)"
  using assms by (rule hash_delete_ok)

theorem hash_delete_correct_witness:
  "\<exists>s1. hash_delete ''k'' None demo_exp =
      Some (answer None (if abs_kv demo_exp ''k'' = None then DB_ERR_KEY_NOTEXIST else DB_ERR_OK)
                      (if abs_kv demo_exp ''k'' = None then ''ERR'' else ''OK'') s1) \<and>
    db_inv s1 \<and> abs_kv s1 = (abs_kv demo_exp)(''k'' := None) \<and> core_only demo_exp s1 \<and>
    heap_set (ttl s1) \<subseteq> heap_set (ttl demo_exp)"
  by (rule hash_delete_correct) (rule demo_exp_inv)

text \<open>
  C18: \<open>hash_update_expiry\<close> on a live key sets its expiry to the current time plus the duration: the value, all
  other keys and the invariant (with the order of the heap) stay. The entry of the key ends in the expiry heap,
  whether it was there or not, and no other entry enters or leaves it; only when the heap cannot grow,
  which needs a refused allocation, is the entry left outside and the answer \<open>ERR\<close>.
\<close>

theorem hash_update_expiry_correct:
  assumes "db_inv s" "live_at (time_now s) (abs_kv s k)"
    and "long_add (time_now (tick s)) d = Some t" "t \<noteq> LONG_MAX"
  shows "\<exists>s1 room a e e'. hash_update_expiry k d ctx s = Some
      (if room then answer ctx DB_ERR_OK ''OK'' s1 else answer ctx DB_ERR_NOMEM ''ERR'' s1) \<and>
    db_inv s1 \<and> abs_kv s1 = (abs_kv s)(k \<mapsto> (fst (the (abs_kv s k)), t)) \<and>
    core_only (tick (tick s)) s1 \<and> (mem_ok s \<longrightarrow> room) \<and>
    ents (mem s) a = Some e \<and> e_key e = k \<and> ents (mem s1) a = Some e' \<and> e_key e' = k \<and> e_expiry e' = t \<and>
    heap_set (ttl s1) = (if room then insert a (heap_set (ttl s)) else heap_set (ttl s) - {a})"
  using assms by (rule hash_update_expiry_moves)

theorem hash_update_expiry_correct_witness:
  "\<exists>s1 a e'. hash_update_expiry ''k'' 50 None demo = Some (answer None DB_ERR_OK ''OK'' s1) \<and> db_inv s1 \<and>
    abs_kv s1 = (abs_kv demo)(''k'' \<mapsto> (''v'', 1050)) \<and> core_only (tick (tick demo)) s1 \<and>
    ents (mem s1) a = Some e' \<and> e_key e' = ''k'' \<and> e_expiry e' = 1050 \<and> heap_set (ttl s1) = insert a (heap_set (ttl demo))"
proof -
  have "live_at (time_now demo) (abs_kv demo ''k'')" "long_add (time_now (tick demo)) 50 = Some 1050" "(1050 :: int) \<noteq> LONG_MAX"
    by (simp_all add: demo_map demo_tick long_add_def LONG_MAX_def LONG_MIN_def)
  from hash_update_expiry_correct [OF demo_inv this, of None] obtain s1 room a e e' where u:
    "hash_update_expiry ''k'' 50 None demo = Some
      (if room then answer None DB_ERR_OK ''OK'' s1 else answer None DB_ERR_NOMEM ''ERR'' s1)" "db_inv s1"
    "abs_kv s1 = (abs_kv demo)(''k'' \<mapsto> (fst (the (abs_kv demo ''k'')), 1050))" "core_only (tick (tick demo)) s1"
    "mem_ok demo \<longrightarrow> room" "ents (mem s1) a = Some e'" "e_key e' = ''k''" "e_expiry e' = 1050"
    "heap_set (ttl s1) = (if room then insert a (heap_set (ttl demo)) else heap_set (ttl demo) - {a})" by blast
  have "room" using u(5) by simp
  then show ?thesis using u(1-4,6-9) by (intro exI [of _ s1] exI [of _ a] exI [of _ e']) (simp add: demo_map)
qed

text \<open>
  C19: An expiry that comes out as \<open>LONG_MAX\<close> breaks the heap: \<open>EXPIRE\<close> answers \<open>OK\<close> and puts the entry into the
  heap, the \<open>DELETE\<close> that follows answers \<open>OK\<close> and frees the entry, and the heap still holds its address.
\<close>

theorem expiry_max_dangling:
  assumes "db_inv s" "live_at (time_now s) (abs_kv s k)" "mem_ok s" "long_add (time_now (tick s)) d = Some LONG_MAX"
  shows "\<exists>s1 s2 a. hash_update_expiry k d ctx s = Some (answer ctx DB_ERR_OK ''OK'' s1) \<and>
    hash_delete k ctx' s1 = Some (answer ctx' DB_ERR_OK ''OK'' s2) \<and> a \<in> heap_set (ttl s2) \<and> ents (mem s2) a = None"
  using assms by (rule expiry_max_dangles)

theorem expiry_max_dangling_witness:
  "\<exists>s1 s2 a. hash_update_expiry ''k'' 9223372036854774807 None demo = Some (answer None DB_ERR_OK ''OK'' s1) \<and>
    hash_delete ''k'' None s1 = Some (answer None DB_ERR_OK ''OK'' s2) \<and> a \<in> heap_set (ttl s2) \<and> ents (mem s2) a = None"
  by (rule expiry_max_dangling)
    (simp_all add: demo_inv demo_map demo_tick demo_facts long_add_def LONG_MAX_def LONG_MIN_def)

section \<open>The expiry heap\<close>

text \<open>
  C20: \<open>heap_insert\<close> adds an entry that is not in the heap, keeps the heap order and the position every entry
  records of itself, and changes nothing else in the memory. A full array is doubled, an array without cells gets
  16. When the array cannot grow it returns \<open>DB_ERR_NOMEM\<close> and the heap, its array and all entries are as before.
\<close>

theorem heap_insert_correct:
  assumes "ttl_inv h m" "ents m e = Some x" "e \<notin> heap_set h" "Suc (h_size h) < SIZE_MAX"
  shows "\<exists>r h' m'. heap_insert h m e = Some (r, h', m') \<and> ttl_inv h' m' \<and>
     r = (if can_grow h m then DB_ERR_OK else DB_ERR_NOMEM) \<and>
     heap_set h' = (if can_grow h m then insert e (heap_set h) else heap_set h) \<and>
     touches (insert e (heap_set h)) m m' \<and>
     (if can_grow h m
      then h_size h' = Suc (h_size h) \<and>
        h_capacity h' = (if h_size h < h_capacity h then h_capacity h else if h_capacity h = 0 then 16 else 2 * h_capacity h)
      else h' = h \<and> ents m' = ents m)"
  using heap_insert_ok [OF assms] unfolding grown_capacity_def .

theorem heap_insert_correct_witness:
  "\<exists>h' m'. heap_insert q_heap q_mem 2 = Some (DB_ERR_OK, h', m') \<and> ttl_inv h' m' \<and>
     heap_set h' = insert 2 (heap_set q_heap) \<and> touches (insert 2 (heap_set q_heap)) q_mem m' \<and>
     h_size h' = 3 \<and> h_capacity h' = 4"
  using heap_insert_correct [OF q_inv q_facts(1,2) q_facts(3) [unfolded heap_fits_def]] q_facts(4)
  by (simp add: q_heap_def)

text \<open>
  C21: \<open>heap_remove\<close> takes any live entry out of the heap: it returns 0 if the entry was in the heap and
  \<open>DB_ERR_KEY_NOTEXIST\<close> otherwise, and afterwards the entry is not in the heap, the others are, and the
  order and the recorded positions hold again, in whichever direction the moved entry had to go.
\<close>

theorem heap_remove_correct:
  assumes "ttl_inv h m" "entry_live m a"
  shows "\<exists>h' m'. heap_remove h m a = Some (if a \<in> heap_set h then 0 else 4, h', m') \<and> ttl_inv h' m' \<and>
    heap_set h' = heap_set h - {a} \<and> index_only m m'"
  using assms by (rule ttlq.rmv_total)

theorem heap_remove_correct_witness:
  "\<exists>h' m'. heap_remove q_heap q_mem 0 = Some (if (0::addr) \<in> heap_set q_heap then 0 else 4, h', m') \<and> ttl_inv h' m' \<and>
    heap_set h' = heap_set q_heap - {0} \<and> index_only q_mem m'"
  by (rule heap_remove_correct [OF q_inv q_facts(5)])

text \<open>
  C22: Taking the earliest entry with \<open>heap_pop\<close> until the heap is empty is a sort: it gives every entry of the
  heap exactly once, by increasing expiry.
\<close>

theorem heap_drain_sorts:
  assumes "ttl_inv h m" "card (heap_set h) = n"
  shows "\<exists>xs. drain heap_pop n h m = Some xs \<and> sorted (map (entry_key m) xs) \<and> set xs = heap_set h \<and> distinct xs"
  using assms by (rule ttlq.drain_sorted)

theorem heap_drain_sorts_witness:
  "\<exists>xs. drain heap_pop 2 q_heap q_mem = Some xs \<and> sorted (map (entry_key q_mem) xs) \<and> set xs = heap_set q_heap \<and> distinct xs"
  by (rule heap_drain_sorts [OF q_inv q_facts(6)])

section \<open>The save file\<close>



text \<open>
  C24: Saving is undefined as soon as one key has no expiry: the expiry -1 is printed as an unsigned number of
  20 digits, with its terminating zero 21 bytes, into \<open>char expiry[20]\<close>. Without padding after that
  buffer no \<open>SAVE\<close> of such a database returns.
\<close>

theorem save_without_expiry_overflows:
  assumes "db_inv s" "mem_ok s" "slack s = 0" "abs_kv s k = Some (v, -1)"
    and "savefile (host_config s) = Path p" "writable (sys s) p"
  shows "fetch_dataset_from_memory s = None"
  using assms by (rule save_overflows)

theorem save_without_expiry_overflows_witness: "fetch_dataset_from_memory demo = None"
  by (rule save_without_expiry_overflows [where k = "''k''" and v = "''v''" and p = DEFAULT_SAVE_FILE])
    (simp_all add: demo_inv demo_map demo_host)

section \<open>Requests and their words\<close>

text \<open>
  C25: The tokenizer, a chain of \<open>strtok\<close> calls that remember a rest, gives the first 16 words of the line: the
  non-empty pieces between blanks, tabs and line ends, in order. What follows the sixteenth word is ignored.
\<close>

theorem tokenize_is_words: "tokenize s = take MAX_CMD_PARAMS (words_of s)"
  by (rule tokenize_words)

text \<open>
  C26: The words a client joins with single blanks are the words the server finds, up to the 16 it reads.
\<close>

theorem tokenize_line_roundtrip:
  assumes "\<forall>w\<in>set ws. plain_word w"
  shows "tokenize (line_of ws) = take MAX_CMD_PARAMS ws"
proof -
  have "words_of (line_of ws) = ws"
  proof -
    have "tokens_upto (length ws + length (words_of (line_of ws))) (line_of ws) = ws"
      by (rule tokens_upto_line [OF assms]) simp
    then show ?thesis by (simp add: tokens_upto_pieces words_of_def)
  qed
  then show ?thesis by (simp add: tokenize_words)
qed

theorem tokenize_line_roundtrip_witness: "tokenize (line_of [''GET'', ''k'', ''ex'']) = take MAX_CMD_PARAMS [''GET'', ''k'', ''ex'']"
  by (rule tokenize_line_roundtrip) (simp add: plain_word_def is_blank_def)

text \<open>
  C27: A request of blanks only has no first word: the search for the command reads an array cell that was never
  written, so the run is undefined. (The server filters only the empty line.)
\<close>

theorem blank_request_undefined:
  assumes "\<forall>c\<in>set req. is_blank c" "alloc_ok (mem s) (allocs (mem s))"
  shows "processCommand req ctx s = None"
proof -
  have "dropWhile is_blank req = []" using assms(1) by (simp add: dropWhile_eq_Nil_conv)
  then have "strtok_r is_blank req = None" unfolding strtok_r_def Let_def by (simp only: simp_thms if_True)
  then have "tokenize req = []" by (simp add: tokenize_def numeral_eq_Suc)
  then show ?thesis using assms(2) by (simp add: processCommand_def malloc_ok_def alloc_def word_at_def)
qed

theorem blank_request_undefined_witness: "processCommand ''  '' (Some (new_ctx demo_conn)) start = None"
  by (rule blank_request_undefined) (simp_all add: is_blank_def)

text \<open>
  C28: \<open>socket_read_data\<close> repeats a read that was interrupted, any number of times, and then delivers the bytes
  received up to the first line end or zero byte, cut to the size of the buffer: never more than \<open>n\<close> bytes,
  and fewer only when the bytes or the line ended. What came after that line end is lost.
\<close>

theorem socket_read_first_line:
  assumes "\<forall>j<k. recv_res (sys s) (n_recv (sys s) + j) = Interrupted"
    and "recv_res (sys s) (n_recv (sys s) + k) = Received t" "t \<noteq> []" "0 < n"
  shows "\<exists>l. socket_read_data sock buf n s = Some (DB_ERR_OK, l, s\<lparr>sys := (sys s)\<lparr>n_recv := Suc (n_recv (sys s) + k)\<rparr>\<rparr>) \<and>
    l = take (length l) t \<and> length l \<le> n \<and> LF \<notin> set l \<and> NUL \<notin> set l \<and>
    (length l = min n (length t) \<or> t ! length l = LF \<or> t ! length l = NUL)"
  using socket_read_line [OF assms] first_line_cut [of n t] by blast

theorem socket_read_first_line_witness:
  "\<exists>s'. socket_read_data 7 [] 3 demo_interrupted = Some (DB_ERR_OK, ''USE'', s') \<and> n_recv (sys s') = 2"
proof -
  have "\<exists>l. socket_read_data 7 [] 3 demo_interrupted =
      Some (DB_ERR_OK, l, demo_interrupted\<lparr>sys := (sys demo_interrupted)\<lparr>n_recv := Suc (n_recv (sys demo_interrupted) + 1)\<rparr>\<rparr>) \<and>
    l = take (length l) ''USER_JOIN'' \<and> length l \<le> 3 \<and> LF \<notin> set l \<and> NUL \<notin> set l \<and>
    (length l = min 3 (length ''USER_JOIN'') \<or> ''USER_JOIN'' ! length l = LF \<or> ''USER_JOIN'' ! length l = NUL)"
    by (rule socket_read_first_line) (simp_all add: demo_interrupted_def)
  then obtain l where l: "socket_read_data 7 [] 3 demo_interrupted =
      Some (DB_ERR_OK, l, demo_interrupted\<lparr>sys := (sys demo_interrupted)\<lparr>n_recv := Suc (n_recv (sys demo_interrupted) + 1)\<rparr>\<rparr>)"
    "l = take (length l) ''USER_JOIN''" "length l \<le> 3"
    "length l = min 3 (length ''USER_JOIN'') \<or> ''USER_JOIN'' ! length l = LF \<or> ''USER_JOIN'' ! length l = NUL" by blast
  have "length l = 0 \<or> length l = 1 \<or> length l = 2 \<or> length l = 3" using l(3) by arith
  then have "length l = 3" using l(4) by (elim disjE) simp_all
  then have "l = ''USE''" using l(2) by simp
  then show ?thesis using l(1) by (simp add: demo_interrupted_def)
qed

text \<open>
  C29: The format loop of \<open>help\<close>, for any table of names and usages whose first row fits: the text is the longest run
  of rows from the top of the table that leaves room for the terminating zero in the \<open>MAX_RESP_LEN\<close> bytes,
  without the last line end. Each row is the name, padded to the longest name, a tab, the description (the usage
  up to its colon), padded to the longest description, \<open> :\<close> and the rest of the usage.
\<close>

theorem help_lists_commands:
  assumes "w = Max (insert 0 ((\<lambda>(name, usage). length name) ` set table))"
    and "d = Max (insert 0 ((\<lambda>(name, usage). length (takeWhile (\<lambda>x. x \<noteq> CHR '':'') usage)) ` set table))"
    and "rows = map (\<lambda>(name, usage). name @ replicate (w - length name) CHR '' '' @ [TAB] @
        takeWhile (\<lambda>x. x \<noteq> CHR '':'') usage @ replicate (d - length (takeWhile (\<lambda>x. x \<noteq> CHR '':'') usage)) CHR '' '' @
        '' :'' @ drop 1 (dropWhile (\<lambda>x. x \<noteq> CHR '':'') usage) @ [LF]) table"
    and "rows \<noteq> []" "length (hd rows) < MAX_RESP_LEN"
  shows "\<exists>k. help_text table = butlast (concat (take k rows)) \<and> 0 < k \<and> k \<le> length rows \<and>
    length (concat (take k rows)) < MAX_RESP_LEN \<and> (k = length rows \<or> MAX_RESP_LEN \<le> length (concat (take (Suc k) rows)))"
  using assms by (rule help_text_prefix)

theorem help_lists_commands_witness:
  "help_text usages = butlast (concat (map (\<lambda>(name, usage). name @ replicate (8 - length name) CHR '' '' @ [TAB] @
        takeWhile (\<lambda>x. x \<noteq> CHR '':'') usage @ replicate (43 - length (takeWhile (\<lambda>x. x \<noteq> CHR '':'') usage)) CHR '' '' @
        '' :'' @ drop 1 (dropWhile (\<lambda>x. x \<noteq> CHR '':'') usage) @ [LF]) usages))"
proof -
  define rows where "rows = map (\<lambda>(name, usage). name @ replicate (8 - length name) CHR '' '' @ [TAB] @
        takeWhile (\<lambda>x. x \<noteq> CHR '':'') usage @ replicate (43 - length (takeWhile (\<lambda>x. x \<noteq> CHR '':'') usage)) CHR '' '' @
        '' :'' @ drop 1 (dropWhile (\<lambda>x. x \<noteq> CHR '':'') usage) @ [LF]) usages"
  have len: "length (concat rows) = 701" "length rows = 9" "length (hd rows) < 8192" unfolding rows_def by code_simp+
  have "\<exists>k. help_text usages = butlast (concat (take k rows)) \<and> 0 < k \<and> k \<le> length rows \<and>
    length (concat (take k rows)) < MAX_RESP_LEN \<and> (k = length rows \<or> MAX_RESP_LEN \<le> length (concat (take (Suc k) rows)))"
  proof (rule help_lists_commands [where w = 8 and d = 43])
    show "8 = Max (insert 0 ((\<lambda>(name, usage). length name) ` set usages))" by code_simp
    show "43 = Max (insert 0 ((\<lambda>(name, usage). length (takeWhile (\<lambda>x. x \<noteq> CHR '':'') usage)) ` set usages))" by code_simp
    show "rows \<noteq> []" "length (hd rows) < MAX_RESP_LEN" using len by auto
  qed (rule rows_def)
  then obtain k where k: "help_text usages = butlast (concat (take k rows))"
    "k = length rows \<or> MAX_RESP_LEN \<le> length (concat (take (Suc k) rows))" by blast
  have "length (concat (take (Suc k) rows)) \<le> length (concat (take (Suc k) rows) @ concat (drop (Suc k) rows))" by simp
  also have "\<dots> = 701" unfolding concat_append [symmetric] append_take_drop_id by (rule len(1))
  finally have "k = length rows" using k(2) by auto
  then show ?thesis using k(1) unfolding rows_def by simp
qed

text \<open>
  C30: \<open>HELP topic\<close> prints the topic into \<open>char resp[50]\<close>: the write leaves the buffer exactly when the topic has
  8 or more bytes (plus the padding that follows the buffer).
\<close>

theorem help_topic_bound: "printSubCommands arg s = None \<longleftrightarrow> 8 + slack s \<le> length arg"
proof -
  have "length (RED @ ''Not support subcmd print for '' @ arg @ '' yet'' @ RESET) = 42 + length arg"
    by (simp add: RED_def RESET_def)
  then show ?thesis unfolding printSubCommands_def sprintf_to_def by (simp only: bind_eq_None_conv) auto
qed

section \<open>Configuration\<close>

text \<open>
  C31: A line \<open>port = n\<close> of the configuration file, in any letter case and with any white space around both
  parts, sets the port of the server to \<open>n\<close> and changes nothing else but the report to the user.
\<close>

theorem config_port_line:
  assumes "spaces p1" "spaces p2" "spaces p3" "spaces p4" "strcaseeq w ''port''" "0 < n" "n < 2 ^ 31"
  shows "load_config_line (p1 @ w @ p2 @ ''='' @ p3 @ dec_nat n @ p4) (res, resp, s) =
    Some (res, resp, send_info_to_user (field_msg w (dec_nat n)) (upd_config (\<lambda>c. c\<lparr>server_port := int n\<rparr>) s))"
  using assms by (rule load_port)

theorem config_port_line_witness:
  "load_config_line ('' '' @ ''Port'' @ '' '' @ ''='' @ '' '' @ dec_nat 6000 @ []) (DB_ERR_OK, None, start) =
    Some (DB_ERR_OK, None, send_info_to_user (field_msg ''Port'' (dec_nat 6000)) (upd_config (\<lambda>c. c\<lparr>server_port := int 6000\<rparr>) start))"
proof (rule config_port_line)
  show "strcaseeq ''Port'' ''port''" by code_simp
qed (simp_all add: c_isspace_def)

text \<open>
  C32: \<open>remove_entry_conn_table\<close> keeps the invariant of the table: it moves the last entry into the place of the
  removed one, keeps every other entry where it is and shortens the table by one.
\<close>

theorem remove_entry_keeps_table:
  assumes "table_inv s" "idx < conn_len s"
  shows "\<exists>s'. remove_entry_conn_table idx s = Some (DB_ERR_OK, s') \<and> table_inv s' \<and> Suc (conn_len s') = conn_len s \<and>
    (\<forall>i<conn_len s'. CONN i s' = CONN (if i = idx then conn_len s - 1 else i) s)"
  using assms by (rule remove_entry_ok)

theorem remove_entry_keeps_table_witness:
  "\<exists>s'. remove_entry_conn_table 0 (demo_srv 2 demo_conn []) = Some (DB_ERR_OK, s') \<and> table_inv s' \<and>
    conn_len s' = 1 \<and> CONN 0 s' = Some demo_conn"
proof -
  have "table_inv (demo_srv 2 demo_conn [])" "0 < conn_len (demo_srv 2 demo_conn [])"
    by (simp_all add: demo_srv_table DEF_CONN_TABLE_SIZE_def)
  from remove_entry_keeps_table [OF this] show ?thesis
    by (auto simp: demo_srv_conn DEF_CONN_TABLE_SIZE_def)
qed

text \<open>
  C33: \<open>double_conn_table\<close> doubles the capacity, keeps the length and every entry, and leaves the new cells unwritten;
  when \<open>realloc\<close> fails it returns \<open>DB_ERR_NOMEM\<close> and the table stays as it was. A capacity whose double is not an
  \<open>int\<close> makes the run undefined.
\<close>

theorem double_keeps_entries:
  assumes "conn_table s = Some t" "ct_cap t = int (length (conns t))"
  shows "if INT_MAX < 2 * length (conns t) then double_conn_table s = None
    else \<exists>s'. double_conn_table s = Some (if alloc_ok (mem s) (allocs (mem s)) then DB_ERR_OK else DB_ERR_NOMEM, s') \<and>
      conn_table s' = Some (if alloc_ok (mem s) (allocs (mem s))
        then \<lparr>conns = conns t @ replicate (length (conns t)) None, ct_len = ct_len t, ct_cap = 2 * ct_cap t\<rparr> else t)"
  using assms by (rule double_conn_table_ok)

theorem double_keeps_entries_witness:
  "\<exists>s'. double_conn_table (demo_srv 1 demo_conn []) = Some (DB_ERR_OK, s') \<and>
    conn_table s' = Some \<lparr>conns = replicate 32 (Some demo_conn) @ replicate 32 None, ct_len = 1, ct_cap = 64\<rparr>"
proof -
  have "alloc_ok (mem (demo_srv 1 demo_conn [])) (allocs (mem (demo_srv 1 demo_conn [])))"
    using demo_srv_facts(2) [of 1 demo_conn "[]"] by (simp add: mem_ok_def)
  moreover have "conn_table (demo_srv 1 demo_conn []) = Some (demo_table 1 demo_conn)" by (simp add: demo_srv_def)
  moreover have "ct_cap (demo_table 1 demo_conn) = int (length (conns (demo_table 1 demo_conn)))" by (simp add: demo_table_def)
  ultimately show ?thesis using double_keeps_entries [of "demo_srv 1 demo_conn []" "demo_table 1 demo_conn"]
    by (simp add: demo_table_def DEF_CONN_TABLE_SIZE_def)
qed

text \<open>
  C34: The two signal mappers are inverse for every signal but one: the text of \<open>REPL_INIT_SIG\<close> is read back as
  \<open>REPL_JOINED_SIG\<close>. (The text of an unknown signal is reported and read as unknown.)
\<close>

theorem signal_roundtrip:
  "fst (map_string_to_enum (map_enum_to_string sg) s) = (if sg = REPL_INIT_SIG then REPL_JOINED_SIG else sg) \<and>
   (map_string_to_enum (map_enum_to_string sg) s = (sg, s) \<longleftrightarrow> sg \<noteq> REPL_INIT_SIG \<and> sg \<noteq> UNKNOWN_SIG)"
  using map_signal_known [of sg s] map_signal_unknown [of s] emit_neq by (cases "sg = UNKNOWN_SIG") auto

text \<open>
  C35: The body of \<open>add_repl\<close>, given a decoded message that names the master, appends a node with the fields of the
  message to the list of replicas and counts it; the nodes before it keep their places and order.
\<close>

theorem add_repl_appends:
  assumes "repl_list s xs" "cfg_uuid (host_config s) = Some uuid" "alloc_ok (mem s) (allocs (mem s))"
  shows "\<exists>s' ys. add_repl_msg (Some uuid) ruuid ip (Some port) hname s = Some (DB_ERR_OK, s') \<and>
    repl_list s' ys \<and> map (r_uuid \<circ> snd) ys = map (r_uuid \<circ> snd) xs @ [ruuid] \<and>
    map fst ys = map fst xs @ [nxt (mem s)] \<and> snd (last ys) = node_of ip hname ruuid port"
  using assms by (rule add_repl_msg_ok)

theorem add_repl_appends_witness:
  "\<exists>s' ys. add_repl_msg (Some ''M'') (Some ''C'') None (Some ''7000'') None demo_master = Some (DB_ERR_OK, s') \<and>
    repl_list s' ys \<and> map (r_uuid \<circ> snd) ys =
      map (r_uuid \<circ> snd) [(0::nat, repl_node ''A'' (Some 1)), (1, repl_node ''B'' None)] @ [Some ''C''] \<and>
    map fst ys = map fst [(0, repl_node ''A'' (Some 1)), (1, repl_node ''B'' None)] @ [nxt (mem demo_master)] \<and>
    snd (last ys) = node_of None None (Some ''C'') ''7000''"
  by (rule add_repl_appends [OF demo_master_list]) (simp_all add: demo_master_def)

text \<open>
  C36: Removing the first of several replicas frees its successor too: \<open>remove_repl\<close> returns 0, but the list of the
  master then starts with a node that was freed, while the count still includes it.
\<close>

theorem remove_repl_dangles:
  assumes "repl_list s ((a, x) # (b, y) # xs)" "r_uuid x = Some uuid" "length uuid < 1000"
  shows "\<exists>s'. remove_repl_msg (Some uuid) s = Some (DB_ERR_OK, s') \<and> replicas (host_config s') = Some b \<and>
    repls (mem s') b = None \<and> num_replicas (host_config s') = int (length xs) + 1"
  using assms by (rule remove_first_frees_next)

theorem remove_repl_dangles_witness:
  "\<exists>s'. remove_repl_msg (Some ''A'') demo_master = Some (DB_ERR_OK, s') \<and> replicas (host_config s') = Some 1 \<and>
    repls (mem s') 1 = None \<and> num_replicas (host_config s') = int (length ([] :: (addr \<times> replicaNode) list)) + 1"
  by (rule remove_repl_dangles [OF demo_master_list]) (simp_all add: repl_node_def)



section \<open>The client and the local session\<close>

text \<open>
  C38: Up to nine digits the client takes exactly the decimal numbers from 1000 to 65535 as a port.
\<close>

theorem is_port_decides:
  assumes "length st \<le> 9"
  shows "fst (is_port st c) = DB_ERR_OK \<longleftrightarrow>
    list_all c_isdigit st \<and> 1000 \<le> digits_value st \<and> digits_value st \<le> 65535"
  using assms by (rule is_port_iff)

theorem is_port_decides_witness:
  "fst (is_port ''6000'' demo_cli) = DB_ERR_OK \<longleftrightarrow>
    list_all c_isdigit ''6000'' \<and> 1000 \<le> digits_value ''6000'' \<and> digits_value ''6000'' \<le> 65535"
  by (rule is_port_decides) simp

text \<open>
  C39: A client that was started with a port never ends with a result: no request gives one of the two codes its main loop waits
  for, not \<open>EXIT\<close>, not the end of the input, and not even a handshake that failed.
\<close>

theorem client_never_ends:
  assumes "2 \<le> length argv" "init_cli_config argv (c0\<lparr>cli_local := True, cli_resp := []\<rparr>) = (DB_ERR_OK, c1)" "cli_port c1 \<noteq> 0"
  shows "cli_main argv c0 s = None"
  using assms by (rule cli_main_endless)

theorem client_never_ends_witness: "cli_main [''cli'', ''-p'', dec_nat 6000] demo_cli start = None"
proof (rule client_never_ends)
  have "port_opt ''-p''" "\<not> port_opt ''cli''" "\<not> host_opt ''cli''" by code_simp+
  then show "init_cli_config [''cli'', ''-p'', dec_nat 6000] (demo_cli\<lparr>cli_local := True, cli_resp := []\<rparr>) =
      (DB_ERR_OK, demo_cli\<lparr>cli_local := True, cli_resp := [], cli_port := int 6000\<rparr>)"
    by (subst init_cli_port) (simp_all add: demo_cli_def)
qed simp_all

text \<open>
  C40: The local session does not end with its input. When every read reports the end of the input, every round is
  defined, returns the code 1, and writes the prompt and the report of an invalid operation and nothing
  else, so that after \<open>n\<close> rounds exactly \<open>n\<close> reports have been written, for every \<open>n\<close>; and \<open>eventLoop\<close> never returns.
\<close>

theorem session_ignores_end_of_input:
  assumes "no_input s" "\<not> SILENT s" "fd = output_fd (app_config s)"
  shows "(\<forall>n. \<exists>s'. session_rounds n s = Some (if n = 0 then DB_ERR_OK else 1, s') \<and>
      io (sys s') = io (sys s) @ concat (replicate n
        [Wrote fd USER_PROMPT, Wrote fd (BOLD @ RED @ ''Invalid operation requested'' @ RESET), Wrote fd [LF]])) \<and>
    eventLoop s = None"
proof
  show "\<forall>n. \<exists>s'. session_rounds n s = Some (if n = 0 then DB_ERR_OK else 1, s') \<and>
      io (sys s') = io (sys s) @ concat (replicate n
        [Wrote fd USER_PROMPT, Wrote fd (BOLD @ RED @ ''Invalid operation requested'' @ RESET), Wrote fd [LF]])"
    using session_rounds_eof [OF assms(1,2)] unfolding invalid_round_def Let_def assms(3) by blast
  show "eventLoop s = None" unfolding eventLoop_def by (rule event_loop_eof [OF assms(1)]) simp
qed

theorem session_ignores_end_of_input_witness:
  "(\<exists>s'. session_rounds 2 demo_silent = Some (1, s') \<and> io (sys s') =
      [Wrote 0 USER_PROMPT, Wrote 0 (BOLD @ RED @ ''Invalid operation requested'' @ RESET), Wrote 0 [LF],
       Wrote 0 USER_PROMPT, Wrote 0 (BOLD @ RED @ ''Invalid operation requested'' @ RESET), Wrote 0 [LF]]) \<and>
    eventLoop demo_silent = None"
proof -
  have "no_input demo_silent" "\<not> SILENT demo_silent" "0 = output_fd (app_config demo_silent)" "io (sys demo_silent) = []"
    by (simp_all add: no_input_def demo_silent_def start_def demo_os_def)
  from session_ignores_end_of_input [OF this(1-3)] this(4) show ?thesis
    by (auto simp: numeral_2_eq_2 dest!: spec [of _ "2 :: nat"])
qed

end
